theory Spec2Isabelle
  imports Main
begin

section \<open>Thrown values and results of fallible calls\<close>

text \<open>
  A JavaScript exception is either an \<open>Error\<close> object with its message or some other
  thrown value, kept as the string \<open>String(v)\<close>. The handlers of both services compute
  \<^verbatim>\<open>error instanceof Error ? error.message : String(error)\<close>.
\<close>

datatype exn = Error string | Thrown string

fun errorMessage :: "exn \<Rightarrow> string" where
  "errorMessage (Error m) = m"
| "errorMessage (Thrown v) = v"

text \<open>
  The result of a call of the model: it returns a value, it throws, or it leaves the
  fragment of \<open>RegExp\<close> that the model covers (see below), where nothing is said.
\<close>

datatype 'a outcome = Returns 'a | Throws exn | OutsideModel

section \<open>Exclude patterns of the bulk scan service\<close>

text \<open>
  The rows that \<^verbatim>\<open>prisma.image.findMany\<close> selects: \<open>id\<close>, \<open>name\<close>, \<open>tag\<close>,
  \<open>source\<close>, \<open>digest\<close>. The field names carry the prefix \<open>image_\<close>.
\<close>

record Image =
  image_id :: string
  image_name :: string
  image_tag :: string
  image_source :: string
  image_digest :: "string option"

text \<open>\<^verbatim>\<open>`${image.name}:${image.tag}`\<close>\<close>

definition fullName :: "Image \<Rightarrow> string" where
  "fullName img = image_name img @ '':'' @ image_tag img"

text \<open>\<^verbatim>\<open>s.replace(/c/g, r)\<close> for a single character \<open>c\<close> and a replacement without \<open>$\<close>.\<close>

definition replaceAll :: "char \<Rightarrow> string \<Rightarrow> string \<Rightarrow> string" where
  "replaceAll c r s = concat (map (\<lambda>x. if x = c then r else [x]) s)"

text \<open>
  The regular expressions that \<open>applyExcludePatterns\<close> builds have the form
  \<open>^body$\<close>. The model covers the bodies made of ordinary characters, \<open>.\<close> and
  \<open>.*\<close>; a body with any other character that \<open>RegExp\<close> treats specially
  (backslash, \<open>^ $ + ? * ( ) [ ] { } |\<close> outside \<open>.*\<close>) is outside the model, and so
  is the \<open>SyntaxError\<close> that some of them raise. Without the \<open>s\<close> flag \<open>.\<close> matches
  every character but a line terminator; of these a \<open>char\<close> can hold line feed and
  carriage return. A \<open>char\<close> of a \<open>string\<close> stands for one code unit of the
  JavaScript string, so the model covers the code units below 256.
\<close>

datatype RegexTok = Lit char | AnyChar | AnyStar

definition lineTerminator :: "char \<Rightarrow> bool" where
  "lineTerminator c = (c = CHR 0x0A \<or> c = CHR 0x0D)"

definition regexSpecial :: "char \<Rightarrow> bool" where
  "regexSpecial c = (c \<in> set (CHR 0x5C # ''^$+?*()[]{}|''))"

fun parseBody :: "string \<Rightarrow> RegexTok list option" where
  "parseBody [] = Some []"
| "parseBody [c] =
     (if c = CHR ''.'' then Some [AnyChar]
      else if regexSpecial c then None
      else Some [Lit c])"
| "parseBody (c # d # ds) =
     (if c = CHR ''.'' then
        (if d = CHR ''*'' then map_option (Cons AnyStar) (parseBody ds)
         else map_option (Cons AnyChar) (parseBody (d # ds)))
      else if regexSpecial c then None
      else map_option (Cons (Lit c)) (parseBody (d # ds)))"

text \<open>\<^verbatim>\<open>new RegExp(src)\<close> for a source of the form \<open>^body$\<close>.\<close>

definition newRegExp :: "string \<Rightarrow> RegexTok list option" where
  "newRegExp src =
     (case src of
        [] \<Rightarrow> None
      | c # cs \<Rightarrow>
          if c = CHR ''^'' \<and> cs \<noteq> [] \<and> last cs = CHR ''$'' then parseBody (butlast cs)
          else None)"

text \<open>
  \<^verbatim>\<open>regex.test(s)\<close> for an anchored expression: whether the whole of \<open>s\<close> matches.
  Backtracking finds a match whenever there is one, so the order of the alternatives of
  \<open>.*\<close> does not show in the result.
\<close>

fun regexTest :: "RegexTok list \<Rightarrow> string \<Rightarrow> bool" where
  "regexTest [] s = (s = [])"
| "regexTest (Lit c # ts) [] = False"
| "regexTest (Lit c # ts) (x # xs) = (x = c \<and> regexTest ts xs)"
| "regexTest (AnyChar # ts) [] = False"
| "regexTest (AnyChar # ts) (x # xs) = (\<not> lineTerminator x \<and> regexTest ts xs)"
| "regexTest (AnyStar # ts) [] = regexTest ts []"
| "regexTest (AnyStar # ts) (x # xs) =
     (regexTest ts (x # xs) \<or> (\<not> lineTerminator x \<and> regexTest (AnyStar # ts) xs))"

text \<open>
  The callback of \<^verbatim>\<open>excludePatterns.some\<close>:
  \<^verbatim>\<open>
  const regexPattern = pattern.replace(/\*/g, '.*').replace(/\?/g, '.');
  const regex = new RegExp(`^${regexPattern}$`);
  return regex.test(fullName);
  \<close>
  \<open>None\<close> is a pattern outside the modelled fragment.
\<close>

definition excludeTest :: "string \<Rightarrow> string \<Rightarrow> bool option" where
  "excludeTest name pattern =
     (let regexPattern = replaceAll (CHR ''?'') ''.'' (replaceAll (CHR ''*'') ''.*'' pattern)
      in map_option (\<lambda>regex. regexTest regex name) (newRegExp (''^'' @ regexPattern @ ''$'')))"

text \<open>\<open>Array.prototype.some\<close> and \<open>filter\<close> with a callback that may leave the model;
  \<open>some\<close> stops at the first pattern that matches.\<close>

fun someM :: "('a \<Rightarrow> bool option) \<Rightarrow> 'a list \<Rightarrow> bool option" where
  "someM f [] = Some False"
| "someM f (x # xs) =
     (case f x of None \<Rightarrow> None | Some b \<Rightarrow> if b then Some True else someM f xs)"

fun filterM :: "('a \<Rightarrow> bool option) \<Rightarrow> 'a list \<Rightarrow> 'a list option" where
  "filterM f [] = Some []"
| "filterM f (x # xs) =
     (case f x of
        None \<Rightarrow> None
      | Some b \<Rightarrow> map_option (\<lambda>r. if b then x # r else r) (filterM f xs))"

text \<open>
  \<^verbatim>\<open>
  if (!excludePatterns || excludePatterns.length === 0) return images;
  return images.filter(image => !excludePatterns.some(pattern => ...));
  \<close>
\<close>

definition applyExcludePatterns :: "Image list \<Rightarrow> string list option \<Rightarrow> Image list option" where
  "applyExcludePatterns images excludePatterns =
     (case excludePatterns of
        None \<Rightarrow> Some images
      | Some ps \<Rightarrow>
          if ps = [] then Some images
          else filterM (\<lambda>img. map_option Not (someM (excludeTest (fullName img)) ps)) images)"



definition mkImage :: "string \<Rightarrow> string \<Rightarrow> Image" where
  "mkImage n t = \<lparr>image_id = n @ '':'' @ t, image_name = n, image_tag = t,
                 image_source = ''REGISTRY'', image_digest = None\<rparr>"



section \<open>Scan requests\<close>

text \<open>
  \<open>ScanRequest\<close> as both services use it: \<open>image\<close>, \<open>tag\<close>, \<open>source\<close>, \<open>tarPath\<close>
  and the scanner selection; the field names carry the prefix \<open>req_\<close>. A missing
  optional field is \<open>None\<close>, and a string is truthy when it is not empty.
\<close>

record Scanners =
  trivy :: "bool option"
  grype :: "bool option"
  syft :: "bool option"
  dockle :: "bool option"
  osv :: "bool option"
  dive :: "bool option"

record ScanRequest =
  req_image :: string
  req_tag :: string
  req_source :: "string option"
  req_tarPath :: "string option"
  req_scanners :: "Scanners option"

definition truthy :: "string option \<Rightarrow> bool" where
  "truthy v = (case v of None \<Rightarrow> False | Some x \<Rightarrow> x \<noteq> [])"

datatype ScanStatus = PENDING | RUNNING | SUCCESS | FAILED | CANCELLED

section \<open>Bulk scan service\<close>

record Patterns =
  imagePattern :: "string option"
  tagPattern :: "string option"
  registryPattern :: "string option"
  excludeTagPattern :: "string option"

text \<open>\<open>BulkScanRequestWithName\<close>, with \<open>options?.maxImages\<close> and \<open>options?.scanners\<close>
  as fields of their own.\<close>

record BulkScanRequestWithName =
  patterns :: Patterns
  options_maxImages :: "int option"
  options_scanners :: "Scanners option"
  bulk_name :: "string option"

record BulkScanResult =
  batchId :: string
  totalImages :: nat
  scanIds :: "string list"
  skipped :: nat

text \<open>
  The tables behind \<open>prisma\<close> as far as the service writes them, and the calls of
  \<open>scannerService.startScan\<close> it makes, each with its priority. Dates are left out.
\<close>

datatype BatchStatus = BATCH_RUNNING | BATCH_COMPLETED | BATCH_FAILED

datatype ItemStatus = ITEM_RUNNING | ITEM_SUCCESS | ITEM_FAILED

record BulkScanBatch =
  batch_id :: string
  batch_name :: "string option"
  batch_totalImages :: nat
  batch_status :: BatchStatus
  batch_patterns :: Patterns
  batch_errorMessage :: "string option"

record BulkScanItem =
  item_batchId :: string
  item_scanId :: string
  item_imageId :: string
  item_status :: ItemStatus

record ScanRow =
  scan_id :: string
  scan_requestId :: string
  scan_imageId :: string
  scan_status :: ScanStatus
  scan_source :: string
  scan_errorMessage :: "string option"

record BulkDb =
  batches :: "string \<rightharpoonup> BulkScanBatch"
  items :: "BulkScanItem list"
  scanRows :: "ScanRow list"
  startScanCalls :: "(ScanRequest \<times> int) list"

text \<open>
  The conditions \<open>findMatchingImages\<close> hands to \<^verbatim>\<open>prisma.image.findMany\<close>. The
  query itself belongs to the persistence collaborator: it is the parameter
  \<open>findMany\<close>, which returns the selected rows or throws.
\<close>

datatype WhereCond = NameContains string | TagContains string

text \<open>\<^verbatim>\<open>p.replace(/\*/g, '%')\<close> followed by \<^verbatim>\<open>.replace(/%/g, '')\<close>.\<close>

definition stripWildcards :: "string \<Rightarrow> string" where
  "stripWildcards p = replaceAll (CHR ''%'') [] (replaceAll (CHR ''*'') ''%'' p)"

definition findMatchingImages ::
  "(WhereCond list \<Rightarrow> exn + Image list) \<Rightarrow> Patterns \<Rightarrow> string list option \<Rightarrow> Image list outcome"
where
  "findMatchingImages findMany pats excludePatterns =
     (let c1 = (if truthy (imagePattern pats)
                then [NameContains (stripWildcards (the (imagePattern pats)))] else []);
          c2 = (if truthy (tagPattern pats)
                then [TagContains (stripWildcards (the (tagPattern pats)))] else [])
      in case findMany (c1 @ c2) of
           Inl e \<Rightarrow> Throws e
         | Inr images \<Rightarrow>
             (case applyExcludePatterns images excludePatterns of
                None \<Rightarrow> OutsideModel
              | Some r \<Rightarrow> Returns r))"

text \<open>\<^verbatim>\<open>xs.slice(0, e)\<close>: a negative end counts from the end of the array.\<close>

definition slice0 :: "'a list \<Rightarrow> int \<Rightarrow> 'a list" where
  "slice0 xs e = take (nat (if e < 0 then int (length xs) + e else e)) xs"

text \<open>
  \<open>executeBulkScan\<close> returns after it has created the batch record and launched
  \<open>queueScansInBackground\<close>, whose promise it does not await. The model returns the
  result together with the arguments of that background call. \<open>newBatchId\<close> is the
  generated identifier, \<open>createFails\<close> the outcome of
  \<^verbatim>\<open>prisma.bulkScanBatch.create\<close> (\<open>None\<close>: the row is written).
\<close>

record BackgroundCall =
  bg_batchId :: string
  bg_images :: "Image list"
  bg_scanners :: "Scanners option"

text \<open>\<^verbatim>\<open>request.patterns.excludeTagPattern ? [request.patterns.excludeTagPattern] : undefined\<close>\<close>

definition excludePatternsOf :: "BulkScanRequestWithName \<Rightarrow> string list option" where
  "excludePatternsOf request =
     (if truthy (excludeTagPattern (patterns request))
      then Some [the (excludeTagPattern (patterns request))] else None)"

definition executeBulkScan ::
  "(WhereCond list \<Rightarrow> exn + Image list) \<Rightarrow> exn option \<Rightarrow> string \<Rightarrow>
     BulkScanRequestWithName \<Rightarrow> BulkDb \<Rightarrow> (BulkScanResult \<times> BackgroundCall) outcome \<times> BulkDb"
where
  "executeBulkScan findMany createFails newBatchId request db =
     (case findMatchingImages findMany (patterns request) (excludePatternsOf request) of
        Throws e \<Rightarrow> (Throws e, db)
      | OutsideModel \<Rightarrow> (OutsideModel, db)
      | Returns matchingImages \<Rightarrow>
          if length matchingImages = 0
          then (Throws (Error ''No images found matching the specified patterns''), db)
          else
            let limitedImages =
                  (case options_maxImages request of
                     None \<Rightarrow> matchingImages
                   | Some n \<Rightarrow> if n \<noteq> 0 then slice0 matchingImages n else matchingImages)
            in (case createFails of
                 Some e \<Rightarrow> (Throws e, db)
               | None \<Rightarrow>
                   (Returns
                      (\<lparr>batchId = newBatchId, totalImages = length limitedImages,
                        scanIds = [], skipped = 0\<rparr>,
                       \<lparr>bg_batchId = newBatchId, bg_images = limitedImages,
                        bg_scanners = options_scanners request\<rparr>),
                    db\<lparr>batches := (batches db)(newBatchId \<mapsto>
                          \<lparr>batch_id = newBatchId, batch_name = bulk_name request,
                           batch_totalImages = length limitedImages,
                           batch_status = BATCH_RUNNING,
                           batch_patterns = patterns request,
                           batch_errorMessage = None\<rparr>)\<rparr>)))"

text \<open>
  What the environment answers during one iteration of the loop of
  \<open>executeQueuedScans\<close>: the result of \<open>scannerService.startScan\<close> (the scan id, or
  the exception), of \<^verbatim>\<open>prisma.bulkScanItem.create\<close> for the started scan, of
  \<^verbatim>\<open>prisma.scan.create\<close> for the placeholder (its id) with the generated request
  id, and of \<^verbatim>\<open>prisma.bulkScanItem.create\<close> for the placeholder.
\<close>

record ItemEnv =
  env_startScan :: "exn + string"
  env_itemCreate :: "exn option"
  env_failedRequestId :: string
  env_failedScanCreate :: "exn + string"
  env_failedItemCreate :: "exn option"

text \<open>The \<open>catch\<close> block of one iteration; \<open>failed++\<close> follows it in any case.\<close>

definition recordFailedScan :: "ItemEnv \<Rightarrow> string \<Rightarrow> Image \<Rightarrow> exn \<Rightarrow> BulkDb \<Rightarrow> BulkDb" where
  "recordFailedScan env bid img e db =
     (case env_failedScanCreate env of
        Inl dbError \<Rightarrow> db
      | Inr failedScanId \<Rightarrow>
          let db1 = db\<lparr>scanRows := scanRows db @
                      [\<lparr>scan_id = failedScanId, scan_requestId = env_failedRequestId env,
                        scan_imageId = image_id img, scan_status = FAILED,
                        scan_source = ''registry'',
                        scan_errorMessage = Some (errorMessage e)\<rparr>]\<rparr>
          in (case env_failedItemCreate env of
               Some dbError \<Rightarrow> db1
             | None \<Rightarrow>
                 db1\<lparr>items := items db1 @
                   [\<lparr>item_batchId = bid, item_scanId = failedScanId,
                     item_imageId = image_id img, item_status = ITEM_FAILED\<rparr>]\<rparr>))"

text \<open>The request that one iteration submits, at priority \<open>-1\<close>.\<close>

definition bulkScanRequest :: "Scanners option \<Rightarrow> Image \<Rightarrow> ScanRequest" where
  "bulkScanRequest scanners img =
     \<lparr>req_image = image_name img, req_tag = image_tag img,
      req_source = Some (if image_source img = ''LOCAL_DOCKER'' then ''local'' else ''registry''),
      req_tarPath = None, req_scanners = scanners\<rparr>"

text \<open>The variables \<open>results\<close>, \<open>successful\<close> and \<open>failed\<close> of
  \<open>executeQueuedScans\<close>, which it returns at the end (prefix \<open>tally_\<close>).\<close>

record Tally =
  tally_results :: "string list"
  tally_successful :: nat
  tally_failed :: nat

text \<open>One iteration of the loop.\<close>

definition scanOneImage ::
  "ItemEnv \<Rightarrow> string \<Rightarrow> Scanners option \<Rightarrow> Image \<Rightarrow> Tally \<times> BulkDb \<Rightarrow> Tally \<times> BulkDb"
where
  "scanOneImage env bid scanners img st =
     (case st of (t, db) \<Rightarrow>
        let db1 = db\<lparr>startScanCalls := startScanCalls db @ [(bulkScanRequest scanners img, -1)]\<rparr>
        in (case env_startScan env of
             Inl e \<Rightarrow> (t\<lparr>tally_failed := tally_failed t + 1\<rparr>, recordFailedScan env bid img e db1)
           | Inr scanId \<Rightarrow>
               (case env_itemCreate env of
                  Some e \<Rightarrow> (t\<lparr>tally_failed := tally_failed t + 1\<rparr>, recordFailedScan env bid img e db1)
                | None \<Rightarrow>
                    (t\<lparr>tally_successful := tally_successful t + 1, tally_results := tally_results t @ [scanId]\<rparr>,
                     db1\<lparr>items := items db1 @
                       [\<lparr>item_batchId = bid, item_scanId = scanId,
                         item_imageId = image_id img, item_status = ITEM_RUNNING\<rparr>]\<rparr>))))"

text \<open>The loop \<^verbatim>\<open>for (let i = 0; i < images.length; i++)\<close>, from index \<open>i\<close> on.\<close>

fun scanLoop ::
  "(nat \<Rightarrow> ItemEnv) \<Rightarrow> string \<Rightarrow> Scanners option \<Rightarrow> nat \<Rightarrow> Image list \<Rightarrow>
     Tally \<times> BulkDb \<Rightarrow> Tally \<times> BulkDb"
where
  "scanLoop env bid scanners i [] st = st"
| "scanLoop env bid scanners i (img # rest) st =
     scanLoop env bid scanners (Suc i) rest (scanOneImage (env i) bid scanners img st)"

definition executeQueuedScans ::
  "(nat \<Rightarrow> ItemEnv) \<Rightarrow> Image list \<Rightarrow> string \<Rightarrow> Scanners option \<Rightarrow> BulkDb \<Rightarrow> Tally \<times> BulkDb"
where
  "executeQueuedScans env images bid scanners db =
     scanLoop env bid scanners 0 images (\<lparr>tally_results = [], tally_successful = 0, tally_failed = 0\<rparr>, db)"

text \<open>The submission of an image fails when \<open>startScan\<close> throws or the scan cannot be
  linked to the batch; the placeholder is written when both of its rows are.\<close>

definition submissionFails :: "ItemEnv \<Rightarrow> bool" where
  "submissionFails e = (isl (env_startScan e) \<or> env_itemCreate e \<noteq> None)"

definition placeholderWritten :: "ItemEnv \<Rightarrow> bool" where
  "placeholderWritten e = (\<not> isl (env_failedScanCreate e) \<and> env_failedItemCreate e = None)"

text \<open>The exception that the \<open>catch\<close> block of an iteration receives, and the two rows
  of the placeholder it writes.\<close>

definition submissionError :: "ItemEnv \<Rightarrow> exn" where
  "submissionError e = (case env_startScan e of Inl x \<Rightarrow> x | Inr _ \<Rightarrow> the (env_itemCreate e))"

definition placeholderScan :: "ItemEnv \<Rightarrow> Image \<Rightarrow> ScanRow" where
  "placeholderScan e img =
     \<lparr>scan_id = projr (env_failedScanCreate e), scan_requestId = env_failedRequestId e,
      scan_imageId = image_id img, scan_status = FAILED, scan_source = ''registry'',
      scan_errorMessage = Some (errorMessage (submissionError e))\<rparr>"

definition placeholderItem :: "ItemEnv \<Rightarrow> string \<Rightarrow> Image \<Rightarrow> BulkScanItem" where
  "placeholderItem e bid img =
     \<lparr>item_batchId = bid, item_scanId = projr (env_failedScanCreate e),
      item_imageId = image_id img, item_status = ITEM_FAILED\<rparr>"

definition statusOfBatch :: "BulkDb \<Rightarrow> string \<Rightarrow> BatchStatus option" where
  "statusOfBatch db bid = map_option batch_status (batches db bid)"

text \<open>
  What one iteration of the loop leaves in the tables. A submission that succeeds
  leaves the item that links the started scan. A submission that fails leaves the
  placeholder scan when \<^verbatim>\<open>prisma.scan.create\<close> takes it, and the item that links
  the placeholder when \<^verbatim>\<open>prisma.bulkScanItem.create\<close> takes it too; a failure of
  either call is logged and the iteration ends.
\<close>

definition rowsWritten :: "ItemEnv \<Rightarrow> Image \<Rightarrow> ScanRow list" where
  "rowsWritten e img =
     (if submissionFails e \<and> \<not> isl (env_failedScanCreate e) then [placeholderScan e img] else [])"

definition itemsWritten :: "ItemEnv \<Rightarrow> string \<Rightarrow> Image \<Rightarrow> BulkScanItem list" where
  "itemsWritten e bid img =
     (if \<not> submissionFails e
      then [\<lparr>item_batchId = bid, item_scanId = projr (env_startScan e),
             item_imageId = image_id img, item_status = ITEM_RUNNING\<rparr>]
      else if placeholderWritten e then [placeholderItem e bid img]
      else [])"

text \<open>The elements of a list with their indices, counted from \<open>i\<close>.\<close>

definition indexed :: "nat \<Rightarrow> 'a list \<Rightarrow> (nat \<times> 'a) list" where
  "indexed i xs = zip [i ..< i + length xs] xs"

text \<open>
  \<^verbatim>\<open>prisma.bulkScanBatch.update\<close> of the status and the error message; a call that
  succeeds finds its row.
\<close>

definition updateBatch :: "string \<Rightarrow> BatchStatus \<Rightarrow> string option \<Rightarrow> BulkDb \<Rightarrow> BulkDb" where
  "updateBatch bid st msg db =
     (case batches db bid of
        None \<Rightarrow> db
      | Some b \<Rightarrow>
          db\<lparr>batches := (batches db)(bid \<mapsto>
               b\<lparr>batch_status := st,
                 batch_errorMessage := (case msg of None \<Rightarrow> batch_errorMessage b | Some m \<Rightarrow> Some m)\<rparr>)\<rparr>)"

text \<open>
  \<open>queueScansInBackground\<close>: the loop, then the update to \<open>COMPLETED\<close>; what the
  \<open>try\<close> block throws sets \<open>FAILED\<close>, and a failure of that last update is only
  logged. The loop returns a value on every path, so the one call of the block that can
  throw is the update, with outcome \<open>completedFails\<close>.
\<close>

definition queueScansInBackground ::
  "(nat \<Rightarrow> ItemEnv) \<Rightarrow> exn option \<Rightarrow> exn option \<Rightarrow> string \<Rightarrow> Image list \<Rightarrow>
     Scanners option \<Rightarrow> BulkDb \<Rightarrow> BulkDb"
where
  "queueScansInBackground env completedFails failedFails bid images scanners db =
     (case executeQueuedScans env images bid scanners db of
        (result, db1) \<Rightarrow>
          (case completedFails of
             None \<Rightarrow> updateBatch bid BATCH_COMPLETED None db1
           | Some error \<Rightarrow>
               (case failedFails of
                  None \<Rightarrow> updateBatch bid BATCH_FAILED (Some (errorMessage error)) db1
                | Some _ \<Rightarrow> db1)))"

section \<open>Scan queue\<close>

text \<open>
  \<open>ScanQueue\<close> is imported by \<open>ScannerService\<close> but is not among the sources. Its
  state and its four operations are modelled from the specification; each operation
  returns the new queue and, where the specification says that a "started" signal fires,
  the scan that starts.
\<close>

text \<open>
  Modelled from the spec: the \<open>QueuedScan\<close> of \<open>ScanQueue\<close>, "{requestId, scanId,
  imageId, request payload, priority (integer ...), enqueuedAt}" (prefix \<open>q_\<close>); the
  time of enqueueing is the number of earlier arrivals.
\<close>

record QueuedScan =
  q_requestId :: string
  q_scanId :: string
  q_imageId :: string
  q_request :: ScanRequest
  q_priority :: int
  q_enqueuedAt :: nat

text \<open>
  Modelled from the spec: the state of \<open>ScanQueue\<close>, which "holds pending jobs, caps
  concurrently-running jobs" at a limit, and counts the arrivals.
\<close>

record ScanQueue =
  pending :: "QueuedScan list"
  running :: "QueuedScan list"
  maxConcurrent :: nat
  arrivals :: nat

text \<open>
  Modelled from the spec: the order of the waiting jobs of \<open>ScanQueue\<close>, which the
  specification words as "ordered by (priority asc, enqueuedAt asc)", "lower sorts
  first". \<open>priorityAsc a b\<close> says that \<open>a\<close> waits in front of \<open>b\<close>.
\<close>

definition priorityAsc :: "QueuedScan \<Rightarrow> QueuedScan \<Rightarrow> bool" where
  "priorityAsc a b =
     (q_priority a < q_priority b \<or>
      (q_priority a = q_priority b \<and> q_enqueuedAt a \<le> q_enqueuedAt b))"

text \<open>
  Modelled from the spec: the order of \<open>ScanQueue\<close> that the specification's scenario
  describes, "the two priority-0 jobs before the two priority -1 jobs; equal-priority
  jobs preserve arrival order", and that the comment at the call in
  \<open>executeQueuedScans\<close> expects: "Use lower priority for bulk scans (0 = normal,
  -1 = bulk)". The greater priority value waits in front.
\<close>

definition priorityDesc :: "QueuedScan \<Rightarrow> QueuedScan \<Rightarrow> bool" where
  "priorityDesc a b =
     (q_priority a > q_priority b \<or>
      (q_priority a = q_priority b \<and> q_enqueuedAt a \<le> q_enqueuedAt b))"

text \<open>Modelled from the spec: the insertion of a job of \<open>ScanQueue\<close> among the waiting
  ones, behind every job that the order \<open>ahead\<close> puts in front of it.\<close>

fun insertBy :: "(QueuedScan \<Rightarrow> QueuedScan \<Rightarrow> bool) \<Rightarrow> QueuedScan \<Rightarrow> QueuedScan list \<Rightarrow> QueuedScan list" where
  "insertBy ahead x [] = [x]"
| "insertBy ahead x (y # ys) = (if ahead y x then y # insertBy ahead x ys else x # y # ys)"

text \<open>
  Modelled from the spec: \<open>ScanQueue.addToQueue\<close>, "inserts a pending job; if
  running-count < limit, it is dequeued immediately and a started signal fires;
  otherwise it waits". A missing priority is 0, the interactive tier.
\<close>

definition addToQueue ::
  "(QueuedScan \<Rightarrow> QueuedScan \<Rightarrow> bool) \<Rightarrow> string \<Rightarrow> string \<Rightarrow> string \<Rightarrow> ScanRequest \<Rightarrow>
     int option \<Rightarrow> ScanQueue \<Rightarrow> ScanQueue \<times> QueuedScan option"
where
  "addToQueue ahead rid sid iid request priority q =
     (let scan = \<lparr>q_requestId = rid, q_scanId = sid, q_imageId = iid, q_request = request,
                  q_priority = (case priority of None \<Rightarrow> 0 | Some p \<Rightarrow> p),
                  q_enqueuedAt = arrivals q\<rparr>;
          q1 = q\<lparr>arrivals := Suc (arrivals q)\<rparr>
      in if length (running q1) < maxConcurrent q1
         then (q1\<lparr>running := running q1 @ [scan]\<rparr>, Some scan)
         else (q1\<lparr>pending := insertBy ahead scan (pending q1)\<rparr>, None))"

text \<open>
  Modelled from the spec: \<open>ScanQueue.completeScan\<close>, "releases a running slot; if
  pending jobs exist, promotes the next eligible one and fires started".
\<close>

definition completeScan :: "string \<Rightarrow> ScanQueue \<Rightarrow> ScanQueue \<times> QueuedScan option" where
  "completeScan rid q =
     (let q1 = q\<lparr>running := filter (\<lambda>r. q_requestId r \<noteq> rid) (running q)\<rparr>
      in case pending q1 of
           [] \<Rightarrow> (q1, None)
         | nxt # rest \<Rightarrow>
             if length (running q1) < maxConcurrent q1
             then (q1\<lparr>pending := rest, running := running q1 @ [nxt]\<rparr>, Some nxt)
             else (q1, None))"

text \<open>
  Modelled from the spec: \<open>ScanQueue.cancelQueuedScan\<close>, "removes a not-yet-started
  job; returns false if already running or unknown".
\<close>

definition cancelQueuedScan :: "string \<Rightarrow> ScanQueue \<Rightarrow> bool \<times> ScanQueue" where
  "cancelQueuedScan rid q =
     (if list_ex (\<lambda>r. q_requestId r = rid) (pending q)
      then (True, q\<lparr>pending := filter (\<lambda>r. q_requestId r \<noteq> rid) (pending q)\<rparr>)
      else (False, q))"

text \<open>
  Modelled from the spec: the rank that \<open>ScanQueue.getQueuePosition\<close> returns, "1-based
  rank among pending jobs; 0 if not pending".
\<close>

fun positionIn :: "string \<Rightarrow> QueuedScan list \<Rightarrow> nat" where
  "positionIn rid [] = 0"
| "positionIn rid (r # rs) =
     (if q_requestId r = rid then 1
      else (case positionIn rid rs of 0 \<Rightarrow> 0 | Suc n \<Rightarrow> Suc (Suc n)))"

text \<open>Modelled from the spec: \<open>ScanQueue.getQueuePosition\<close>, by the rank above.\<close>

definition getQueuePosition :: "string \<Rightarrow> ScanQueue \<Rightarrow> nat" where
  "getQueuePosition rid q = positionIn rid (pending q)"

section \<open>Scanner service\<close>

text \<open>
  \<open>ScanJob\<close> (prefix \<open>job_\<close>) and \<open>ScanProgressEvent\<close> (prefix \<open>ev_\<close>, without the
  timestamp).
\<close>

record ScanJob =
  job_requestId :: string
  job_scanId :: string
  job_imageId :: string
  job_status :: ScanStatus
  job_progress :: nat
  job_error :: "string option"

record ScanProgressEvent =
  ev_requestId :: string
  ev_scanId :: string
  ev_status :: ScanStatus
  ev_progress :: nat
  ev_step :: "string option"
  ev_error :: "string option"

text \<open>
  The scanner reports that \<open>calculateVulnerabilityCounts\<close> reads: under \<open>trivy\<close> the
  \<open>Results\<close>, each with its \<open>Vulnerabilities\<close>, each with its \<open>Severity\<close>; under
  \<open>grype\<close> the \<open>matches\<close>, each with \<open>vulnerability?.severity\<close>. A missing or falsy
  member is \<open>None\<close>. The \<open>metadata\<close>, to which \<open>finalizeScan\<close> adds the scanner
  versions, and the reports of the other scanners are not counted and are left out.
\<close>

datatype TrivyResult = TrivyResult (Vulnerabilities: "string option list option")

datatype TrivyReport = TrivyReport (Results: "TrivyResult list option")

datatype GrypeReport = GrypeReport (matches: "string option list option")

record Reports =
  rep_trivy :: "TrivyReport option"
  rep_grype :: "GrypeReport option"

record Counts =
  critical :: nat
  high :: nat
  medium :: nat
  low :: nat

text \<open>\<open>toUpperCase\<close> on the ASCII letters; the characters beyond ASCII that JavaScript
  maps to ASCII capitals are not covered.\<close>

definition toUpperCase :: "string \<Rightarrow> string" where
  "toUpperCase s =
     map (\<lambda>c. let n = (of_char c :: nat) in if 97 \<le> n \<and> n \<le> 122 then char_of (n - 32) else c) s"

text \<open>The \<open>switch\<close> on the severity in upper case.\<close>

definition countSeverity :: "string \<Rightarrow> string option \<Rightarrow> Counts \<Rightarrow> Counts" where
  "countSeverity dflt sev counts =
     (let severity = toUpperCase (if truthy sev then the sev else dflt)
      in if severity = ''CRITICAL'' then counts\<lparr>critical := critical counts + 1\<rparr>
         else if severity = ''HIGH'' then counts\<lparr>high := high counts + 1\<rparr>
         else if severity = ''MEDIUM'' then counts\<lparr>medium := medium counts + 1\<rparr>
         else if severity = ''LOW'' then counts\<lparr>low := low counts + 1\<rparr>
         else counts)"

definition countTrivyResult :: "TrivyResult \<Rightarrow> Counts \<Rightarrow> Counts" where
  "countTrivyResult result counts =
     (case Vulnerabilities result of
        None \<Rightarrow> counts
      | Some vulns \<Rightarrow> fold (countSeverity ''UNKNOWN'') vulns counts)"

definition calculateVulnerabilityCounts :: "Reports \<Rightarrow> Counts" where
  "calculateVulnerabilityCounts reports =
     (let counts0 = \<lparr>critical = 0, high = 0, medium = 0, low = 0\<rparr>;
          counts1 = (case rep_trivy reports of
                       None \<Rightarrow> counts0
                     | Some trivyReport \<Rightarrow>
                         (case Results trivyReport of
                            None \<Rightarrow> counts0
                          | Some results \<Rightarrow> fold countTrivyResult results counts0))
      in case rep_grype reports of
           None \<Rightarrow> counts1
         | Some grypeReport \<Rightarrow>
             (case matches grypeReport of
                None \<Rightarrow> counts1
              | Some ms \<Rightarrow> fold (countSeverity ''Unknown'') ms counts1))"

text \<open>
  The state of the service: the job map \<open>globalJobs\<close>, the queue, the dispatcher
  operations that have been started and have not settled yet, and what the service has
  handed to its collaborators: the events given to \<open>emitProgress\<close>, the simulated
  progress that is running, the fields written by \<open>updateScanRecord\<close>, the reports
  given to \<open>uploadScanResults\<close>, the notifications sent, and every call of
  \<open>scanQueue.completeScan\<close> with its request id and error.
\<close>

datatype Dispatch = TarScan | LocalDockerScan | RegistryScan

record Execution =
  ex_requestId :: string
  ex_request :: ScanRequest
  ex_scanId :: string
  ex_imageId :: string
  ex_dispatch :: Dispatch

record ScanRecordFields =
  upd_status :: ScanStatus
  upd_errorMessage :: "string option"

datatype Simulation = DownloadProgress | ScanningProgress

record Service =
  jobs :: "string \<rightharpoonup> ScanJob"
  queue :: ScanQueue
  executing :: "Execution list"
  events :: "ScanProgressEvent list"
  simulations :: "(string \<times> Simulation) list"
  recordUpdates :: "(string \<times> ScanRecordFields) list"
  uploads :: "(string \<times> Reports) list"
  notifications :: "(string \<times> string \<times> Counts) list"
  released :: "(string \<times> string option) list"

definition initialService :: "nat \<Rightarrow> Service" where
  "initialService limit =
     \<lparr>jobs = Map.empty,
      queue = \<lparr>pending = [], running = [], maxConcurrent = limit, arrivals = 0\<rparr>,
      executing = [], events = [], simulations = [], recordUpdates = [], uploads = [],
      notifications = [], released = []\<rparr>"

text \<open>
  Modelled from the spec: \<open>ProgressTracker.emitProgress\<close>, which is not among the
  sources, a "synchronous fan-out to all subscribers" in which "a throwing subscriber
  must not block delivery": it takes the event and returns.
\<close>

definition emitProgress :: "ScanProgressEvent \<Rightarrow> Service \<Rightarrow> Service" where
  "emitProgress ev s = s\<lparr>events := events s @ [ev]\<rparr>"

text \<open>
  Modelled from the spec: \<open>ProgressTracker.simulateDownloadProgress\<close> and
  \<open>simulateScanningProgress\<close>, not among the sources, which start the timers of a
  synthesized progress curve for a request. The events of the timers are left out.
\<close>

definition simulateProgress :: "Simulation \<Rightarrow> string \<Rightarrow> Service \<Rightarrow> Service" where
  "simulateProgress kind rid s = s\<lparr>simulations := simulations s @ [(rid, kind)]\<rparr>"

text \<open>
  Modelled from the spec: \<open>ProgressTracker.cleanup\<close>, not among the sources, which
  "cancels outstanding simulated-progress timers for a request".
\<close>

definition cleanup :: "string \<Rightarrow> Service \<Rightarrow> Service" where
  "cleanup rid s = s\<lparr>simulations := filter (\<lambda>t. fst t \<noteq> rid) (simulations s)\<rparr>"

text \<open>
  \<^verbatim>\<open>
  const job = globalJobs.get(requestId);
  if (job) {
    job.status = status;
    if (progress !== undefined) job.progress = progress;
    if (error) job.error = error;
    globalJobs.set(requestId, job);
    if (status === 'RUNNING' || status === 'SUCCESS' || status === 'FAILED' || status === 'CANCELLED')
      this.progressTracker.emitProgress({ ..., progress: progress !== undefined ? progress : (job.progress || 0), step, error, ... });
  }
  \<close>
\<close>

definition updateJobStatus ::
  "string \<Rightarrow> ScanStatus \<Rightarrow> nat option \<Rightarrow> string option \<Rightarrow> string option \<Rightarrow> Service \<Rightarrow> Service"
where
  "updateJobStatus rid status progress err step s =
     (case jobs s rid of
        None \<Rightarrow> s
      | Some job \<Rightarrow>
          let job1 = job\<lparr>job_status := status\<rparr>;
              job2 = (case progress of None \<Rightarrow> job1 | Some p \<Rightarrow> job1\<lparr>job_progress := p\<rparr>);
              job3 = (if truthy err then job2\<lparr>job_error := err\<rparr> else job2);
              s1 = s\<lparr>jobs := (jobs s)(rid \<mapsto> job3)\<rparr>
          in (if status = RUNNING \<or> status = SUCCESS \<or> status = FAILED \<or> status = CANCELLED
              then emitProgress
                     \<lparr>ev_requestId = rid, ev_scanId = job_scanId job3, ev_status = status,
                      ev_progress = (case progress of None \<Rightarrow> job_progress job3 | Some p \<Rightarrow> p),
                      ev_step = step, ev_error = err\<rparr> s1
              else s1))"

definition isLocalDockerScan :: "ScanRequest \<Rightarrow> bool" where
  "isLocalDockerScan request = (req_source request = Some ''local'')"

definition shouldSimulateDownload :: "ScanRequest \<Rightarrow> bool" where
  "shouldSimulateDownload request =
     (req_source request \<noteq> Some ''local'' \<and> req_source request \<noteq> Some ''tar'')"

text \<open>
  \<open>executeScan\<close> up to its \<open>await\<close> of the dispatcher: the branch taken, the
  simulations of the registry branch, and the dispatcher operation started.
\<close>

definition executeScan_dispatch :: "string \<Rightarrow> ScanRequest \<Rightarrow> string \<Rightarrow> string \<Rightarrow> Service \<Rightarrow> Service" where
  "executeScan_dispatch rid request sid iid s =
     (let started = (\<lambda>d s'. s'\<lparr>executing := executing s' @
                        [\<lparr>ex_requestId = rid, ex_request = request, ex_scanId = sid,
                          ex_imageId = iid, ex_dispatch = d\<rparr>]\<rparr>)
      in if req_source request = Some ''tar'' \<and> truthy (req_tarPath request)
         then started TarScan s
         else if isLocalDockerScan request then started LocalDockerScan s
         else
           let s1 = (if shouldSimulateDownload request
                     then simulateProgress DownloadProgress rid s else s);
               s2 = simulateProgress ScanningProgress rid s1
           in started RegistryScan s2)"

text \<open>
  The listener of \<open>scan-started\<close> up to the same point; the event emitter calls it
  inside the queue operation that starts the scan.
  \<^verbatim>\<open>
  const job = globalJobs.get(queuedScan.requestId);
  if (job) { job.status = 'RUNNING'; globalJobs.set(queuedScan.requestId, job); }
  this.executeScan(queuedScan.requestId, queuedScan.request, queuedScan.scanId, queuedScan.imageId)
  \<close>
\<close>

definition scanStartedListener :: "QueuedScan \<Rightarrow> Service \<Rightarrow> Service" where
  "scanStartedListener queuedScan s =
     (let s1 = (case jobs s (q_requestId queuedScan) of
                  None \<Rightarrow> s
                | Some job \<Rightarrow>
                    s\<lparr>jobs := (jobs s)(q_requestId queuedScan \<mapsto> job\<lparr>job_status := RUNNING\<rparr>)\<rparr>)
      in executeScan_dispatch (q_requestId queuedScan) (q_request queuedScan)
           (q_scanId queuedScan) (q_imageId queuedScan) s1)"

text \<open>A call of \<open>scanQueue.completeScan\<close> by the service: the call is recorded, the
  queue releases and promotes, and a promoted scan reaches the listener.\<close>

definition callCompleteScan :: "string \<Rightarrow> string option \<Rightarrow> Service \<Rightarrow> Service" where
  "callCompleteScan rid err s =
     (case completeScan rid (queue s) of
        (q', started) \<Rightarrow>
          let s1 = s\<lparr>queue := q', released := released s @ [(rid, err)]\<rparr>
          in (case started of None \<Rightarrow> s1 | Some queuedScan \<Rightarrow> scanStartedListener queuedScan s1))"

text \<open>
  What the collaborators answer during \<open>finalizeScan\<close>: \<open>loadScanResults\<close>,
  \<open>getScannerVersions\<close>, \<open>uploadScanResults\<close> and \<open>notifyScanComplete\<close>
  (\<open>None\<close>: the call returns).
\<close>

record FinalizeEnv =
  fin_loadScanResults :: "exn + Reports"
  fin_getScannerVersions :: "exn option"
  fin_uploadScanResults :: "exn option"
  fin_notifyScanComplete :: "exn option"

text \<open>The last two statements of \<open>finalizeScan\<close>.\<close>

definition finalizeScan_success :: "string \<Rightarrow> Service \<Rightarrow> exn option \<times> Service" where
  "finalizeScan_success rid s =
     (None, callCompleteScan rid None
              (updateJobStatus rid SUCCESS (Some 100) None (Some ''Scan completed successfully'') s))"

text \<open>\<open>finalizeScan\<close>; the first component is the exception it throws, if any.\<close>

definition finalizeScan ::
  "FinalizeEnv \<Rightarrow> string \<Rightarrow> string \<Rightarrow> ScanRequest \<Rightarrow> Service \<Rightarrow> exn option \<times> Service"
where
  "finalizeScan env rid sid request s =
     (let s1 = updateJobStatus rid RUNNING (Some 90) None (Some ''Processing scan results'') s
      in case fin_loadScanResults env of
           Inl e \<Rightarrow> (Some e, s1)
         | Inr reports \<Rightarrow>
             (case fin_getScannerVersions env of
                Some e \<Rightarrow> (Some e, s1)
              | None \<Rightarrow>
                  (case fin_uploadScanResults env of
                     Some e \<Rightarrow> (Some e, s1)
                   | None \<Rightarrow>
                       let s2 = s1\<lparr>uploads := uploads s1 @ [(sid, reports)]\<rparr>;
                           vulnerabilityCounts = calculateVulnerabilityCounts reports
                       in (if critical vulnerabilityCounts > 0 \<or> high vulnerabilityCounts > 0
                           then (case fin_notifyScanComplete env of
                                   Some e \<Rightarrow> (Some e, s2)
                                 | None \<Rightarrow>
                                     finalizeScan_success rid
                                       (s2\<lparr>notifications := notifications s2 @
                                            [(req_image request @ '':'' @ req_tag request, sid,
                                              vulnerabilityCounts)]\<rparr>))
                           else finalizeScan_success rid s2))))"

text \<open>
  The \<open>catch\<close> block of \<open>executeScan\<close>, which ends by throwing again: the result is
  the exception that leaves \<open>executeScan\<close>. \<open>updateFails\<close> is the outcome of
  \<open>updateScanRecord\<close>; when that call throws, its exception leaves instead and the
  rest of the block is skipped.
\<close>

definition executeScan_catch :: "exn option \<Rightarrow> string \<Rightarrow> string \<Rightarrow> exn \<Rightarrow> Service \<Rightarrow> exn \<times> Service" where
  "executeScan_catch updateFails rid sid err s =
     (let s1 = cleanup rid s;
          msg = errorMessage err
      in case updateFails of
           Some e2 \<Rightarrow> (e2, s1)
         | None \<Rightarrow>
             (err,
              updateJobStatus rid FAILED None (Some msg) None
                (s1\<lparr>recordUpdates := recordUpdates s1 @
                     [(sid, \<lparr>upd_status = FAILED, upd_errorMessage = Some msg\<rparr>)]\<rparr>)))"

text \<open>
  What the collaborators answer when a dispatcher operation settles: the dispatcher
  itself (\<open>None\<close>: it completes), those of \<open>finalizeScan\<close>, and \<open>updateScanRecord\<close>
  in the \<open>catch\<close> block.
\<close>

record SettleEnv =
  set_dispatcher :: "exn option"
  set_finalize :: FinalizeEnv
  set_updateScanRecord :: "exn option"

text \<open>\<open>executeScan\<close> from the \<open>await\<close> of the dispatcher on; all three branches go on
  with \<open>finalizeScan\<close>.\<close>

definition executeScan_resume :: "SettleEnv \<Rightarrow> Execution \<Rightarrow> Service \<Rightarrow> exn option \<times> Service" where
  "executeScan_resume env ex s =
     (case set_dispatcher env of
        Some e \<Rightarrow>
          (case executeScan_catch (set_updateScanRecord env) (ex_requestId ex) (ex_scanId ex) e s of
             (e', s') \<Rightarrow> (Some e', s'))
      | None \<Rightarrow>
          (case finalizeScan (set_finalize env) (ex_requestId ex) (ex_scanId ex) (ex_request ex) s of
             (None, s1) \<Rightarrow> (None, s1)
           | (Some e, s1) \<Rightarrow>
               (case executeScan_catch (set_updateScanRecord env) (ex_requestId ex) (ex_scanId ex) e s1 of
                  (e', s') \<Rightarrow> (Some e', s'))))"

text \<open>
  The dispatcher operation \<open>ex\<close> settles: \<open>executeScan\<close> runs to its end, and the
  \<open>.catch\<close> of the listener handles what it throws:
  \<^verbatim>\<open>
  const errorMessage = error instanceof Error ? error.message : String(error);
  this.updateJobStatus(queuedScan.requestId, 'FAILED', undefined, errorMessage);
  scanQueue.completeScan(queuedScan.requestId, errorMessage);
  \<close>
\<close>

definition dispatcherSettled :: "SettleEnv \<Rightarrow> Execution \<Rightarrow> Service \<Rightarrow> Service" where
  "dispatcherSettled env ex s =
     (case executeScan_resume env ex (s\<lparr>executing := remove1 ex (executing s)\<rparr>) of
        (None, s1) \<Rightarrow> s1
      | (Some err, s1) \<Rightarrow>
          callCompleteScan (ex_requestId ex) (Some (errorMessage err))
            (updateJobStatus (ex_requestId ex) FAILED None (Some (errorMessage err)) None s1))"

text \<open>
  \<open>startScan\<close>. The environment gives the generated request id, the result of
  \<open>initializeScanRecord\<close> (\<open>scanId\<close> and \<open>imageId\<close>) and the outcome of the
  \<open>updateScanRecord\<close> of a queued scan. \<open>ahead\<close> is the order of the queue.
\<close>

record StartEnv =
  st_requestId :: string
  st_initializeScanRecord :: "exn + string \<times> string"
  st_updateScanRecord :: "exn option"

record StartResult =
  res_requestId :: string
  res_scanId :: string
  res_queued :: bool
  res_queuePosition :: "nat option"

definition startScan ::
  "(QueuedScan \<Rightarrow> QueuedScan \<Rightarrow> bool) \<Rightarrow> StartEnv \<Rightarrow> ScanRequest \<Rightarrow> int option \<Rightarrow> Service \<Rightarrow>
     (exn + StartResult) \<times> Service"
where
  "startScan ahead env request priority s =
     (let rid = st_requestId env
      in case st_initializeScanRecord env of
           Inl e \<Rightarrow> (Inl e, s)
         | Inr (sid, iid) \<Rightarrow>
             let s1 = s\<lparr>jobs := (jobs s)(rid \<mapsto>
                          \<lparr>job_requestId = rid, job_scanId = sid, job_imageId = iid,
                           job_status = PENDING, job_progress = 0, job_error = None\<rparr>)\<rparr>
             in (case addToQueue ahead rid sid iid request priority (queue s1) of
                   (q', started) \<Rightarrow>
                     let s2 = s1\<lparr>queue := q'\<rparr>;
                         s3 = (case started of
                                 None \<Rightarrow> s2
                               | Some queuedScan \<Rightarrow> scanStartedListener queuedScan s2);
                         queuePosition = getQueuePosition rid (queue s3);
                         queued = (queuePosition > 0)
                     in (if queued
                         then (case st_updateScanRecord env of
                                 Some e \<Rightarrow> (Inl e, s3)
                               | None \<Rightarrow>
                                   (Inr \<lparr>res_requestId = rid, res_scanId = sid, res_queued = queued,
                                         res_queuePosition = Some queuePosition\<rparr>,
                                    s3\<lparr>recordUpdates := recordUpdates s3 @
                                         [(sid, \<lparr>upd_status = PENDING, upd_errorMessage = None\<rparr>)]\<rparr>))
                         else (Inr \<lparr>res_requestId = rid, res_scanId = sid, res_queued = queued,
                                    res_queuePosition = None\<rparr>, s3))))"

text \<open>
  \<open>cancelScan\<close>; \<open>updateFails\<close> is the outcome of its \<open>updateScanRecord\<close>, whose
  exception leaves \<open>cancelScan\<close> before the statements that follow it.
\<close>

definition cancelScan :: "exn option \<Rightarrow> string \<Rightarrow> Service \<Rightarrow> (exn + bool) \<times> Service" where
  "cancelScan updateFails rid s =
     (case cancelQueuedScan rid (queue s) of
        (cancelled, q') \<Rightarrow>
          let s0 = s\<lparr>queue := q'\<rparr>
          in (if cancelled
              then (case jobs s0 rid of
                      None \<Rightarrow> (Inr True, s0)
                    | Some job \<Rightarrow>
                        let s1 = updateJobStatus rid CANCELLED None None None s0
                        in (case updateFails of
                              Some e \<Rightarrow> (Inl e, s1)
                            | None \<Rightarrow>
                                (Inr True,
                                 s1\<lparr>recordUpdates := recordUpdates s1 @
                                      [(job_scanId job, \<lparr>upd_status = CANCELLED, upd_errorMessage = None\<rparr>)]\<rparr>)))
              else (case jobs s0 rid of
                      None \<Rightarrow> (Inr False, s0)
                    | Some job \<Rightarrow>
                        if job_status job = RUNNING
                        then
                          let s1 = updateJobStatus rid CANCELLED None None None (cleanup rid s0)
                          in (case updateFails of
                                Some e \<Rightarrow> (Inl e, s1)
                              | None \<Rightarrow>
                                  (Inr True,
                                   callCompleteScan rid (Some ''Cancelled by user'')
                                     (s1\<lparr>recordUpdates := recordUpdates s1 @
                                          [(job_scanId job, \<lparr>upd_status = CANCELLED, upd_errorMessage = None\<rparr>)]\<rparr>)))
                        else (Inr False, s0))))"

text \<open>
  The operations that reach the service from outside, one at a time: a call of
  \<open>startScan\<close>, the settling of the dispatcher operation of a request, a call of
  \<open>cancelScan\<close>. Each \<open>await\<close> of a persistence or notification call is taken to return
  before the next operation begins; the dispatcher is the one collaborator whose
  operation stays outstanding across other operations. A generated request id is new,
  as the data model requires ("requestId never reused"): a \<open>StartScan\<close> with a known id
  does not occur, and neither does the settling of an operation that is not outstanding.
\<close>

datatype Op =
    StartScan StartEnv ScanRequest "int option"
  | Settle SettleEnv string
  | CancelScan "exn option" string

fun step :: "(QueuedScan \<Rightarrow> QueuedScan \<Rightarrow> bool) \<Rightarrow> Service \<Rightarrow> Op \<Rightarrow> Service" where
  "step ahead s (StartScan env request priority) =
     (if jobs s (st_requestId env) = None then snd (startScan ahead env request priority s) else s)"
| "step ahead s (Settle env rid) =
     (case find (\<lambda>ex. ex_requestId ex = rid) (executing s) of
        None \<Rightarrow> s
      | Some ex \<Rightarrow> dispatcherSettled env ex s)"
| "step ahead s (CancelScan updateFails rid) = snd (cancelScan updateFails rid s)"

definition run :: "(QueuedScan \<Rightarrow> QueuedScan \<Rightarrow> bool) \<Rightarrow> nat \<Rightarrow> Op list \<Rightarrow> Service" where
  "run ahead limit ops = foldl (step ahead) (initialService limit) ops"

text \<open>How often \<open>scanQueue.completeScan\<close> has been called for a request.\<close>

definition releaseCount :: "string \<Rightarrow> Service \<Rightarrow> nat" where
  "releaseCount rid s = length (filter (\<lambda>r. fst r = rid) (released s))"

definition statusOf :: "Service \<Rightarrow> string \<Rightarrow> ScanStatus option" where
  "statusOf s rid = map_option job_status (jobs s rid)"

definition terminal :: "ScanStatus \<Rightarrow> bool" where
  "terminal st = (st = SUCCESS \<or> st = FAILED \<or> st = CANCELLED)"

section \<open>Example data\<close>

definition exampleImages :: "Image list" where
  "exampleImages = [mkImage ''app'' ''v1'', mkImage ''app'' ''v2'', mkImage ''app'' ''latest'']"

definition examplePatterns :: Patterns where
  "examplePatterns = \<lparr>imagePattern = Some ''app'', tagPattern = None, registryPattern = None,
                        excludeTagPattern = Some ''app:latest''\<rparr>"

definition exampleRequest :: BulkScanRequestWithName where
  "exampleRequest = \<lparr>patterns = examplePatterns, options_maxImages = None,
                       options_scanners = None, bulk_name = None\<rparr>"

definition exampleBatch :: BulkScanBatch where
  "exampleBatch = \<lparr>batch_id = ''bulk-1'', batch_name = None, batch_totalImages = 3,
                     batch_status = BATCH_RUNNING, batch_patterns = examplePatterns,
                     batch_errorMessage = None\<rparr>"

definition exampleDb :: BulkDb where
  "exampleDb = \<lparr>batches = [''bulk-1'' \<mapsto> exampleBatch], items = [], scanRows = [],
                  startScanCalls = []\<rparr>"

text \<open>An environment in which the submission of the second image fails.\<close>

definition exampleEnv :: "nat \<Rightarrow> ItemEnv" where
  "exampleEnv i =
     \<lparr>env_startScan = (if i = 1 then Inl (Error ''pull failed'') else Inr ''scan''),
      env_itemCreate = None, env_failedRequestId = ''failed-1'',
      env_failedScanCreate = Inr ''placeholder'', env_failedItemCreate = None\<rparr>"

section \<open>Notions for the properties of the scanner service\<close>

abbreviation pendingIds :: "Service \<Rightarrow> string list" where
  "pendingIds s \<equiv> map q_requestId (pending (queue s))"

abbreviation executingIds :: "Service \<Rightarrow> string list" where
  "executingIds s \<equiv> map ex_requestId (executing s)"

text \<open>The requests that occupy a slot of the queue.\<close>

abbreviation runningIds :: "Service \<Rightarrow> string list" where
  "runningIds s \<equiv> map q_requestId (running (queue s))"

definition errorOf :: "Service \<Rightarrow> string \<Rightarrow> string option option" where
  "errorOf s rid = map_option job_error (jobs s rid)"

text \<open>The exception that \<open>finalizeScan\<close> throws under an environment, and the one that
  reaches the \<open>catch\<close> block of \<open>executeScan\<close> when a dispatcher operation settles.\<close>

definition finalizeFailure :: "FinalizeEnv \<Rightarrow> exn option" where
  "finalizeFailure env =
     (case fin_loadScanResults env of
        Inl e \<Rightarrow> Some e
      | Inr reports \<Rightarrow>
          (case fin_getScannerVersions env of
             Some e \<Rightarrow> Some e
           | None \<Rightarrow>
               (case fin_uploadScanResults env of
                  Some e \<Rightarrow> Some e
                | None \<Rightarrow>
                    if critical (calculateVulnerabilityCounts reports) > 0 \<or>
                       high (calculateVulnerabilityCounts reports) > 0
                    then fin_notifyScanComplete env
                    else None)))"

definition thrown :: "SettleEnv \<Rightarrow> exn option" where
  "thrown env =
     (case set_dispatcher env of Some e \<Rightarrow> Some e | None \<Rightarrow> finalizeFailure (set_finalize env))"

text \<open>
  The states that the operations keep to: a waiting scan belongs to a \<open>PENDING\<close> job,
  an outstanding dispatcher operation to a job that is \<open>RUNNING\<close> or was cancelled
  while running, and no request waits or executes twice.
\<close>

definition consistent :: "Service \<Rightarrow> bool" where
  "consistent s =
     (list_all (\<lambda>r. statusOf s r = Some PENDING) (pendingIds s) \<and>
      list_all (\<lambda>r. statusOf s r = Some RUNNING \<or> statusOf s r = Some CANCELLED) (executingIds s) \<and>
      distinct (pendingIds s) \<and> distinct (executingIds s))"

text \<open>
  \<open>quiet rid st s s1\<close>: from \<open>s\<close> to \<open>s1\<close> nothing has changed for the queue, the
  outstanding operations, the calls of \<open>completeScan\<close>, the record updates and the errors
  of the jobs, and the job \<open>rid\<close>, if known, has the status \<open>st\<close>.
\<close>

definition quiet :: "string \<Rightarrow> ScanStatus \<Rightarrow> Service \<Rightarrow> Service \<Rightarrow> bool" where
  "quiet rid st s s1 =
     (queue s1 = queue s \<and> executing s1 = executing s \<and> released s1 = released s \<and>
      recordUpdates s1 = recordUpdates s \<and> errorOf s1 = errorOf s \<and>
      statusOf s1 = (\<lambda>r. if r = rid \<and> statusOf s rid \<noteq> None then Some st else statusOf s r))"

text \<open>The exception that reaches the \<open>.catch\<close> of the listener when \<open>e\<close> reaches the
  \<open>catch\<close> block of \<open>executeScan\<close>, and the status in which a settled operation
  leaves its job.\<close>

definition boundaryError :: "SettleEnv \<Rightarrow> exn \<Rightarrow> exn" where
  "boundaryError env e = (case set_updateScanRecord env of None \<Rightarrow> e | Some e2 \<Rightarrow> e2)"

definition settledStatus :: "SettleEnv \<Rightarrow> ScanStatus" where
  "settledStatus env = (if thrown env = None then SUCCESS else FAILED)"

text \<open>The error of a job as it reads, \<^verbatim>\<open>job.error || ''\<close>; the requests that wait
  or execute; and the states in which none of these has an error.\<close>

definition errorText :: "Service \<Rightarrow> string \<Rightarrow> string" where
  "errorText s rid = (case errorOf s rid of Some (Some m) \<Rightarrow> m | _ \<Rightarrow> [])"

definition active :: "Service \<Rightarrow> string set" where
  "active s = set (pendingIds s) \<union> set (executingIds s)"

definition unfailed :: "Service \<Rightarrow> bool" where
  "unfailed s = list_all (\<lambda>r. errorOf s r = Some None) (pendingIds s @ executingIds s)"

text \<open>The request that an operation is about.\<close>

definition target :: "Op \<Rightarrow> string" where
  "target op = (case op of StartScan env _ _ \<Rightarrow> st_requestId env | Settle _ rid \<Rightarrow> rid | CancelScan _ rid \<Rightarrow> rid)"

text \<open>A sequence of operations without a \<open>cancelScan\<close> of the request, and a job
  whose dispatcher operation has settled.\<close>

definition neverCancelled :: "string \<Rightarrow> Op list \<Rightarrow> bool" where
  "neverCancelled rid ops = list_all (\<lambda>op. case op of CancelScan _ r \<Rightarrow> r \<noteq> rid | _ \<Rightarrow> True) ops"

definition settled :: "Service \<Rightarrow> string \<Rightarrow> bool" where
  "settled s rid = (statusOf s rid = Some SUCCESS \<or> statusOf s rid = Some FAILED)"

section \<open>Example data of the scanner service\<close>

definition exampleScanRequest :: ScanRequest where
  "exampleScanRequest = \<lparr>req_image = ''app'', req_tag = ''v1'', req_source = Some ''registry'',
                          req_tarPath = None, req_scanners = None\<rparr>"

definition exampleStart :: "string \<Rightarrow> StartEnv" where
  "exampleStart rid = \<lparr>st_requestId = rid,
                        st_initializeScanRecord = Inr (''scan-'' @ rid, ''image-'' @ rid),
                        st_updateScanRecord = None\<rparr>"

text \<open>Reports without findings, and reports with one critical finding of Trivy.\<close>

definition cleanReports :: Reports where
  "cleanReports = \<lparr>rep_trivy = Some (TrivyReport (Some [TrivyResult None])), rep_grype = None\<rparr>"

definition criticalReports :: Reports where
  "criticalReports =
     \<lparr>rep_trivy = Some (TrivyReport (Some [TrivyResult (Some [Some ''Critical''])])),
      rep_grype = None\<rparr>"

text \<open>Environments in which every collaborator answers, the dispatcher throws, or the
  notification throws.\<close>

definition settleOk :: "Reports \<Rightarrow> SettleEnv" where
  "settleOk reports =
     \<lparr>set_dispatcher = None,
      set_finalize = \<lparr>fin_loadScanResults = Inr reports, fin_getScannerVersions = None,
                       fin_uploadScanResults = None, fin_notifyScanComplete = None\<rparr>,
      set_updateScanRecord = None\<rparr>"

definition settleDispatcherThrows :: SettleEnv where
  "settleDispatcherThrows = (settleOk cleanReports)\<lparr>set_dispatcher := Some (Error ''pull failed'')\<rparr>"

definition settleNotifyThrows :: SettleEnv where
  "settleNotifyThrows =
     \<lparr>set_dispatcher = None,
      set_finalize = \<lparr>fin_loadScanResults = Inr criticalReports, fin_getScannerVersions = None,
                       fin_uploadScanResults = None,
                       fin_notifyScanComplete = Some (Error ''smtp down'')\<rparr>,
      set_updateScanRecord = None\<rparr>"

text \<open>The outstanding operation of request \<open>A\<close> after \<open>exampleStart ''A''\<close>.\<close>

definition exampleExecution :: Execution where
  "exampleExecution = \<lparr>ex_requestId = ''A'', ex_request = exampleScanRequest,
                         ex_scanId = ''scan-A'', ex_imageId = ''image-A'',
                         ex_dispatch = RegistryScan\<rparr>"

section \<open>Notions for the order of the queue\<close>

text \<open>
  The scenario of the specification: a queue with one slot, which the job \<open>J0\<close>
  occupies, and the jobs submitted after it, each with its priority. \<open>startOrder\<close>
  completes the running job again and again and lists the jobs that start.
\<close>

definition emptyQueue :: "nat \<Rightarrow> ScanQueue" where
  "emptyQueue limit = \<lparr>pending = [], running = [], maxConcurrent = limit, arrivals = 0\<rparr>"

definition enqueue ::
  "(QueuedScan \<Rightarrow> QueuedScan \<Rightarrow> bool) \<Rightarrow> ScanQueue \<Rightarrow> string \<times> int \<Rightarrow> ScanQueue" where
  "enqueue ahead q j =
     fst (addToQueue ahead (fst j) (''scan-'' @ fst j) (''image-'' @ fst j) exampleScanRequest
            (Some (snd j)) q)"

definition atCapacity ::
  "(QueuedScan \<Rightarrow> QueuedScan \<Rightarrow> bool) \<Rightarrow> (string \<times> int) list \<Rightarrow> ScanQueue" where
  "atCapacity ahead js = foldl (enqueue ahead) (enqueue ahead (emptyQueue 1) (''J0'', 0)) js"

fun startOrder :: "nat \<Rightarrow> string \<Rightarrow> ScanQueue \<Rightarrow> string list" where
  "startOrder 0 cur q = []"
| "startOrder (Suc n) cur q =
     (case completeScan cur q of
        (q', None) \<Rightarrow> []
      | (q', Some nxt) \<Rightarrow> q_requestId nxt # startOrder n (q_requestId nxt) q')"

definition fourJobs :: "(string \<times> int) list" where
  "fourJobs = [(''J1'', 0), (''J2'', -1), (''J3'', 0), (''J4'', -1)]"

text \<open>The waiting jobs are in the order \<open>priorityDesc\<close>, and each has arrived before
  the next arrival.\<close>

definition waitingInOrder :: "ScanQueue \<Rightarrow> bool" where
  "waitingInOrder q =
     (sorted_wrt priorityDesc (pending q) \<and>
      list_all (\<lambda>x. q_enqueuedAt x < arrivals q) (pending q))"

section \<open>Properties of the exclude patterns\<close>












text \<open>Beyond the glob reading: a dot of the pattern is not escaped and stands for any
  character, and a pattern with an unbalanced parenthesis is outside the model (there
  \<open>new RegExp\<close> throws).\<close>

lemma excludeTest_dot: "excludeTest ''app:v1x0'' ''app:v1.0'' = Some True"
  by code_simp

lemma excludeTest_outside: "excludeTest ''app:v1'' ''app:('' = None"
  by code_simp






section \<open>Properties of the bulk scan service\<close>

lemma recordFailedScan_calls [simp]:
  "startScanCalls (recordFailedScan e bid img x db) = startScanCalls db"
  by (simp add: recordFailedScan_def Let_def split: sum.splits option.splits)

lemma recordFailedScan_batches [simp]:
  "batches (recordFailedScan e bid img x db) = batches db"
  by (simp add: recordFailedScan_def Let_def split: sum.splits option.splits)

lemma indexed_Nil [simp]: "indexed i [] = []"
  by (simp add: indexed_def)

lemma indexed_Cons [simp]: "indexed i (x # xs) = (i, x) # indexed (Suc i) xs"
  unfolding indexed_def by (subst upt_rec) simp

text \<open>One iteration makes one call of \<open>startScan\<close>, at priority \<open>-1\<close>, counts the
  image once, as started or as failed, and leaves the rows described above.\<close>

lemma scanOneImage_db:
  "startScanCalls (snd (scanOneImage e bid sc img (t, db)))
     = startScanCalls db @ [(bulkScanRequest sc img, -1)]"
  "batches (snd (scanOneImage e bid sc img (t, db))) = batches db"
  by (auto simp: scanOneImage_def Let_def split: sum.splits option.splits)

lemma scanOneImage_counts:
  "tally_failed (fst (scanOneImage e bid sc img (t, db)))
     = tally_failed t + (if submissionFails e then 1 else 0)"
  "tally_successful (fst (scanOneImage e bid sc img (t, db)))
     = tally_successful t + (if submissionFails e then 0 else 1)"
  by (auto simp: scanOneImage_def submissionFails_def Let_def split: sum.splits option.splits)

lemma scanOneImage_effect:
  "scanRows (snd (scanOneImage e bid sc img (t, db))) = scanRows db @ rowsWritten e img"
  "items (snd (scanOneImage e bid sc img (t, db))) = items db @ itemsWritten e bid img"
  by (auto simp: scanOneImage_def recordFailedScan_def rowsWritten_def itemsWritten_def
                 submissionFails_def placeholderWritten_def placeholderScan_def
                 placeholderItem_def submissionError_def Let_def
           split: sum.splits option.splits)

text \<open>The loop goes through every image, whatever fails on the way.\<close>

lemma scanLoop_db:
  "startScanCalls (snd (scanLoop env bid sc i images (t, db)))
     = startScanCalls db @ map (\<lambda>img. (bulkScanRequest sc img, -1)) images \<and>
   batches (snd (scanLoop env bid sc i images (t, db))) = batches db"
proof (induction images arbitrary: i t db)
  case Nil
  then show ?case by simp
next
  case (Cons img rest)
  obtain t1 db1 where step: "scanOneImage (env i) bid sc img (t, db) = (t1, db1)"
    by (cases "scanOneImage (env i) bid sc img (t, db)")
  show ?case
    using Cons.IH [of "Suc i" t1 db1] scanOneImage_db [of "env i" bid sc img t db] step by simp
qed

lemma scanLoop_counts:
  "tally_failed (fst (scanLoop env bid sc i images (t, db)))
     = tally_failed t + length (filter (\<lambda>(k, img). submissionFails (env k)) (indexed i images)) \<and>
   tally_successful (fst (scanLoop env bid sc i images (t, db)))
     = tally_successful t
         + length (filter (\<lambda>(k, img). \<not> submissionFails (env k)) (indexed i images))"
proof (induction images arbitrary: i t db)
  case Nil
  then show ?case by simp
next
  case (Cons img rest)
  obtain t1 db1 where step: "scanOneImage (env i) bid sc img (t, db) = (t1, db1)"
    by (cases "scanOneImage (env i) bid sc img (t, db)")
  show ?case
    using Cons.IH [of "Suc i" t1 db1] scanOneImage_counts [of "env i" bid sc img t db] step
    by simp
qed

lemma scanLoop_effect:
  "scanRows (snd (scanLoop env bid sc i images (t, db)))
     = scanRows db @ concat (map (\<lambda>(k, img). rowsWritten (env k) img) (indexed i images)) \<and>
   items (snd (scanLoop env bid sc i images (t, db)))
     = items db @ concat (map (\<lambda>(k, img). itemsWritten (env k) bid img) (indexed i images))"
proof (induction images arbitrary: i t db)
  case Nil
  then show ?case by simp
next
  case (Cons img rest)
  obtain t1 db1 where step: "scanOneImage (env i) bid sc img (t, db) = (t1, db1)"
    by (cases "scanOneImage (env i) bid sc img (t, db)")
  show ?case
    using Cons.IH [of "Suc i" t1 db1] scanOneImage_effect [of "env i" bid sc img t db] step
    by simp
qed

text \<open>The update of the batch touches the batch only.\<close>

lemma updateBatch_effect:
  "startScanCalls (updateBatch bid st msg db) = startScanCalls db"
  "scanRows (updateBatch bid st msg db) = scanRows db"
  "items (updateBatch bid st msg db) = items db"
  by (simp_all add: updateBatch_def split: option.splits)

text \<open>
  Claim C5, as amended. \<open>queueScansInBackground\<close> submits every image once, in order
  and at priority \<open>-1\<close>, whatever fails on the way, and \<open>executeQueuedScans\<close> counts
  each image as started or as failed. A submission that fails leaves the \<open>FAILED\<close>
  placeholder scan when the database takes that row, and the batch item that links it
  when the database takes that row too; a failure of either write is logged and the loop
  goes on. No exception leaves the loop. After the loop the batch is set to
  \<open>COMPLETED\<close>, however many submissions failed, when that update succeeds; when the
  update to \<open>COMPLETED\<close> throws, the batch is set to \<open>FAILED\<close> with the message of
  that exception, and it keeps its status when the update to \<open>FAILED\<close> throws as well.
\<close>

theorem bulk_failure_isolation:
  "tally_failed (fst (executeQueuedScans env images bid sc db))
     = length (filter (\<lambda>(k, img). submissionFails (env k)) (indexed 0 images)) \<and>
   tally_successful (fst (executeQueuedScans env images bid sc db))
     = length (filter (\<lambda>(k, img). \<not> submissionFails (env k)) (indexed 0 images)) \<and>
   startScanCalls (queueScansInBackground env completedFails failedFails bid images sc db)
     = startScanCalls db @ map (\<lambda>img. (bulkScanRequest sc img, -1)) images \<and>
   scanRows (queueScansInBackground env completedFails failedFails bid images sc db)
     = scanRows db @ concat (map (\<lambda>(k, img). rowsWritten (env k) img) (indexed 0 images)) \<and>
   items (queueScansInBackground env completedFails failedFails bid images sc db)
     = items db @ concat (map (\<lambda>(k, img). itemsWritten (env k) bid img) (indexed 0 images)) \<and>
   batches (queueScansInBackground env completedFails failedFails bid images sc db)
     = (batches db)(bid :=
         map_option
           (\<lambda>b. case completedFails of
                   None \<Rightarrow> b\<lparr>batch_status := BATCH_COMPLETED\<rparr>
                 | Some error \<Rightarrow>
                     (case failedFails of
                        None \<Rightarrow> b\<lparr>batch_status := BATCH_FAILED,
                                    batch_errorMessage := Some (errorMessage error)\<rparr>
                      | Some _ \<Rightarrow> b))
           (batches db bid))"
proof -
  let ?t0 = "\<lparr>tally_results = [], tally_successful = 0, tally_failed = 0\<rparr>"
  let ?q = "queueScansInBackground env completedFails failedFails bid images sc db"
  obtain t1 db1 where run: "executeQueuedScans env images bid sc db = (t1, db1)"
    by (cases "executeQueuedScans env images bid sc db")
  then have loop: "scanLoop env bid sc 0 images (?t0, db) = (t1, db1)"
    by (simp add: executeQueuedScans_def)
  have q: "?q = db1 \<or> (\<exists>st msg. ?q = updateBatch bid st msg db1)"
    using run by (auto simp: queueScansInBackground_def split: option.splits)
  have counts: "tally_failed t1
      = length (filter (\<lambda>(k, img). submissionFails (env k)) (indexed 0 images))"
    "tally_successful t1
      = length (filter (\<lambda>(k, img). \<not> submissionFails (env k)) (indexed 0 images))"
    using scanLoop_counts [of env bid sc 0 images ?t0 db] loop by simp_all
  have calls: "startScanCalls db1
      = startScanCalls db @ map (\<lambda>img. (bulkScanRequest sc img, -1)) images"
    and same: "batches db1 = batches db"
    using scanLoop_db [of env bid sc 0 images ?t0 db] loop by simp_all
  have rows: "scanRows db1
      = scanRows db @ concat (map (\<lambda>(k, img). rowsWritten (env k) img) (indexed 0 images))"
    and its: "items db1
      = items db @ concat (map (\<lambda>(k, img). itemsWritten (env k) bid img) (indexed 0 images))"
    using scanLoop_effect [of env bid sc 0 images ?t0 db] loop by simp_all
  have frame: "startScanCalls ?q = startScanCalls db1" "scanRows ?q = scanRows db1"
    "items ?q = items db1"
    using q by (auto simp: updateBatch_effect)
  have bt: "batches ?q
     = (batches db)(bid :=
         map_option
           (\<lambda>b. case completedFails of
                   None \<Rightarrow> b\<lparr>batch_status := BATCH_COMPLETED\<rparr>
                 | Some error \<Rightarrow>
                     (case failedFails of
                        None \<Rightarrow> b\<lparr>batch_status := BATCH_FAILED,
                                    batch_errorMessage := Some (errorMessage error)\<rparr>
                      | Some _ \<Rightarrow> b))
           (batches db bid))"
    using run same
    by (auto simp: queueScansInBackground_def updateBatch_def fun_eq_iff split: option.splits)
  show ?thesis using counts calls rows its frame bt run by simp
qed

theorem bulk_failure_isolation_witness:
  "tally_failed (fst (executeQueuedScans exampleEnv exampleImages ''bulk-1'' None exampleDb)) = 1 \<and>
   tally_successful (fst (executeQueuedScans exampleEnv exampleImages ''bulk-1'' None exampleDb)) = 2 \<and>
   map fst (startScanCalls
       (queueScansInBackground exampleEnv None None ''bulk-1'' exampleImages None exampleDb))
     = map (bulkScanRequest None) exampleImages \<and>
   scanRows (queueScansInBackground exampleEnv None None ''bulk-1'' exampleImages None exampleDb)
     = [\<lparr>scan_id = ''placeholder'', scan_requestId = ''failed-1'', scan_imageId = ''app:v2'',
         scan_status = FAILED, scan_source = ''registry'',
         scan_errorMessage = Some ''pull failed''\<rparr>] \<and>
   items (queueScansInBackground exampleEnv None None ''bulk-1'' exampleImages None exampleDb)
     = [\<lparr>item_batchId = ''bulk-1'', item_scanId = ''scan'', item_imageId = ''app:v1'',
         item_status = ITEM_RUNNING\<rparr>,
        \<lparr>item_batchId = ''bulk-1'', item_scanId = ''placeholder'', item_imageId = ''app:v2'',
         item_status = ITEM_FAILED\<rparr>,
        \<lparr>item_batchId = ''bulk-1'', item_scanId = ''scan'', item_imageId = ''app:latest'',
         item_status = ITEM_RUNNING\<rparr>] \<and>
   statusOfBatch
       (queueScansInBackground exampleEnv None None ''bulk-1'' exampleImages None exampleDb) ''bulk-1''
     = Some BATCH_COMPLETED"
  using bulk_failure_isolation [of exampleEnv exampleImages "''bulk-1''" None exampleDb None None]
  by (simp add: exampleImages_def exampleEnv_def exampleDb_def mkImage_def statusOfBatch_def
                rowsWritten_def itemsWritten_def submissionFails_def placeholderWritten_def
                placeholderScan_def placeholderItem_def submissionError_def)

text \<open>
  Claim C5, as stated, fails in two places. The batch becomes \<open>FAILED\<close> without any
  exception of the loop: every submission succeeds, and the update to \<open>COMPLETED\<close>
  throws. And a failed submission leaves no placeholder when the database refuses the
  placeholder scan: the image is counted as failed, and no row is written for it.
\<close>

theorem bulk_failure_isolation_counterexample:
  "tally_failed (fst (executeQueuedScans (\<lambda>i. exampleEnv 0) exampleImages ''bulk-1'' None exampleDb))
     = 0 \<and>
   statusOfBatch
       (queueScansInBackground (\<lambda>i. exampleEnv 0) (Some (Error ''db down'')) None ''bulk-1''
          exampleImages None exampleDb) ''bulk-1''
     = Some BATCH_FAILED \<and>
   tally_failed (fst (executeQueuedScans
       (\<lambda>i. (exampleEnv i)\<lparr>env_failedScanCreate := Inl (Error ''db down'')\<rparr>)
       exampleImages ''bulk-1'' None exampleDb))
     = 1 \<and>
   scanRows (queueScansInBackground
       (\<lambda>i. (exampleEnv i)\<lparr>env_failedScanCreate := Inl (Error ''db down'')\<rparr>) None None ''bulk-1''
       exampleImages None exampleDb)
     = [] \<and>
   map item_imageId (items (queueScansInBackground
       (\<lambda>i. (exampleEnv i)\<lparr>env_failedScanCreate := Inl (Error ''db down'')\<rparr>) None None ''bulk-1''
       exampleImages None exampleDb))
     = [''app:v1'', ''app:latest'']"
  by code_simp

text \<open>
  Claim C9. When the patterns resolve to no image, \<open>executeBulkScan\<close> throws the
  error "No images found matching the specified patterns" and writes nothing: no batch
  record is created.
\<close>

theorem executeBulkScan_no_images:
  assumes "findMatchingImages findMany (patterns request) (excludePatternsOf request) = Returns []"
  shows "executeBulkScan findMany createFails bid request db
           = (Throws (Error ''No images found matching the specified patterns''), db)"
  using assms by (simp add: executeBulkScan_def)

theorem executeBulkScan_no_images_witness:
  "findMatchingImages (\<lambda>_. Inr [mkImage ''app'' ''latest'']) (patterns exampleRequest)
       (excludePatternsOf exampleRequest) = Returns [] \<and>
   executeBulkScan (\<lambda>_. Inr [mkImage ''app'' ''latest'']) None ''bulk-2'' exampleRequest exampleDb
     = (Throws (Error ''No images found matching the specified patterns''), exampleDb)"
proof -
  have ex: "applyExcludePatterns [mkImage ''app'' ''latest''] (Some [''app:latest'']) = Some []"
    by code_simp
  have h: "findMatchingImages (\<lambda>_. Inr [mkImage ''app'' ''latest'']) (patterns exampleRequest)
       (excludePatternsOf exampleRequest) = Returns []"
    using ex
    by (simp add: findMatchingImages_def excludePatternsOf_def exampleRequest_def
                  examplePatterns_def truthy_def)
  show ?thesis using executeBulkScan_no_images [OF h] h by simp
qed

text \<open>
  Claim C10. Whatever images the patterns resolve to, a call of \<open>executeBulkScan\<close>
  that returns gives \<open>skipped = 0\<close> and an empty list of scan ids: it returns before
  any image is submitted, and the submissions are left to the background call.
\<close>

theorem executeBulkScan_returns_no_scanIds:
  assumes "fst (executeBulkScan findMany createFails bid request db) = Returns (r, bg)"
  shows "skipped r = 0 \<and> scanIds r = [] \<and> batchId r = bid \<and>
         totalImages r = length (bg_images bg)"
  using assms
  by (auto simp: executeBulkScan_def Let_def split: outcome.splits if_splits option.splits)

theorem executeBulkScan_returns_no_scanIds_witness:
  "fst (executeBulkScan (\<lambda>_. Inr exampleImages) None ''bulk-2'' exampleRequest exampleDb)
     = Returns (\<lparr>batchId = ''bulk-2'', totalImages = 2, scanIds = [], skipped = 0\<rparr>,
                \<lparr>bg_batchId = ''bulk-2'',
                 bg_images = [mkImage ''app'' ''v1'', mkImage ''app'' ''v2''],
                 bg_scanners = None\<rparr>) \<and>
   skipped \<lparr>batchId = ''bulk-2'', totalImages = 2, scanIds = [], skipped = 0\<rparr> = 0 \<and>
   scanIds \<lparr>batchId = ''bulk-2'', totalImages = 2, scanIds = ([] :: string list), skipped = 0\<rparr> = []"
proof -
  have ex: "applyExcludePatterns exampleImages (Some [''app:latest''])
              = Some [mkImage ''app'' ''v1'', mkImage ''app'' ''v2'']"
    unfolding exampleImages_def by code_simp
  have h: "fst (executeBulkScan (\<lambda>_. Inr exampleImages) None ''bulk-2'' exampleRequest exampleDb)
     = Returns (\<lparr>batchId = ''bulk-2'', totalImages = 2, scanIds = [], skipped = 0\<rparr>,
                \<lparr>bg_batchId = ''bulk-2'',
                 bg_images = [mkImage ''app'' ''v1'', mkImage ''app'' ''v2''],
                 bg_scanners = None\<rparr>)"
    using ex
    by (simp add: executeBulkScan_def findMatchingImages_def excludePatternsOf_def
                  exampleRequest_def examplePatterns_def truthy_def)
  show ?thesis using executeBulkScan_returns_no_scanIds [OF h] h by simp
qed

section \<open>Properties of the scanner service\<close>

lemma statusOf_update [simp]:
  "statusOf (s\<lparr>queue := q\<rparr>) = statusOf s"
  "statusOf (s\<lparr>executing := ex\<rparr>) = statusOf s"
  "statusOf (s\<lparr>events := ev\<rparr>) = statusOf s"
  "statusOf (s\<lparr>simulations := sm\<rparr>) = statusOf s"
  "statusOf (s\<lparr>recordUpdates := ru\<rparr>) = statusOf s"
  "statusOf (s\<lparr>uploads := up\<rparr>) = statusOf s"
  "statusOf (s\<lparr>notifications := nt\<rparr>) = statusOf s"
  "statusOf (s\<lparr>released := rl\<rparr>) = statusOf s"
  by (simp_all add: statusOf_def fun_eq_iff)

lemma errorOf_update [simp]:
  "errorOf (s\<lparr>queue := q\<rparr>) = errorOf s"
  "errorOf (s\<lparr>executing := ex\<rparr>) = errorOf s"
  "errorOf (s\<lparr>events := ev\<rparr>) = errorOf s"
  "errorOf (s\<lparr>simulations := sm\<rparr>) = errorOf s"
  "errorOf (s\<lparr>recordUpdates := ru\<rparr>) = errorOf s"
  "errorOf (s\<lparr>uploads := up\<rparr>) = errorOf s"
  "errorOf (s\<lparr>notifications := nt\<rparr>) = errorOf s"
  "errorOf (s\<lparr>released := rl\<rparr>) = errorOf s"
  by (simp_all add: errorOf_def fun_eq_iff)

lemma updateJobStatus_other [simp]:
  "queue (updateJobStatus rid st p e stp s) = queue s"
  "executing (updateJobStatus rid st p e stp s) = executing s"
  "released (updateJobStatus rid st p e stp s) = released s"
  "recordUpdates (updateJobStatus rid st p e stp s) = recordUpdates s"
  by (simp_all add: updateJobStatus_def emitProgress_def Let_def split: option.splits)

lemma updateJobStatus_jobs:
  "jobs (updateJobStatus rid st p e stp s) =
     (case jobs s rid of
        None \<Rightarrow> jobs s
      | Some job \<Rightarrow>
          (jobs s)(rid \<mapsto> job\<lparr>job_status := st,
                                job_progress := (case p of None \<Rightarrow> job_progress job | Some x \<Rightarrow> x),
                                job_error := (if truthy e then e else job_error job)\<rparr>))"
  by (simp add: updateJobStatus_def emitProgress_def Let_def split: option.splits)

lemma updateJobStatus_status [simp]:
  "statusOf (updateJobStatus rid st p e stp s) r =
     (if r = rid \<and> statusOf s rid \<noteq> None then Some st else statusOf s r)"
  by (simp add: statusOf_def updateJobStatus_jobs split: option.splits)

lemma updateJobStatus_error:
  "errorOf (updateJobStatus rid st p e stp s) r =
     (if r = rid \<and> errorOf s rid \<noteq> None \<and> truthy e then Some e else errorOf s r)"
  by (simp add: errorOf_def updateJobStatus_jobs split: option.splits)

lemma cleanup_other [simp]:
  "queue (cleanup rid s) = queue s"
  "executing (cleanup rid s) = executing s"
  "released (cleanup rid s) = released s"
  "jobs (cleanup rid s) = jobs s"
  "recordUpdates (cleanup rid s) = recordUpdates s"
  "statusOf (cleanup rid s) = statusOf s"
  "errorOf (cleanup rid s) = errorOf s"
  by (simp_all add: cleanup_def statusOf_def errorOf_def fun_eq_iff)

lemma executeScan_dispatch_other [simp]:
  "queue (executeScan_dispatch rid req sid iid s) = queue s"
  "released (executeScan_dispatch rid req sid iid s) = released s"
  "jobs (executeScan_dispatch rid req sid iid s) = jobs s"
  "recordUpdates (executeScan_dispatch rid req sid iid s) = recordUpdates s"
  "executingIds (executeScan_dispatch rid req sid iid s) = executingIds s @ [rid]"
  by (simp_all add: executeScan_dispatch_def simulateProgress_def Let_def)

lemma scanStartedListener_other [simp]:
  "queue (scanStartedListener q s) = queue s"
  "released (scanStartedListener q s) = released s"
  "recordUpdates (scanStartedListener q s) = recordUpdates s"
  "executingIds (scanStartedListener q s) = executingIds s @ [q_requestId q]"
  by (simp_all add: scanStartedListener_def Let_def split: option.splits)

lemma scanStartedListener_status [simp]:
  "statusOf (scanStartedListener q s) r =
     (if r = q_requestId q \<and> statusOf s r \<noteq> None then Some RUNNING else statusOf s r)"
  by (simp add: scanStartedListener_def statusOf_def Let_def split: option.splits)

lemma scanStartedListener_error [simp]:
  "errorOf (scanStartedListener q s) = errorOf s"
  by (auto simp: scanStartedListener_def errorOf_def Let_def fun_eq_iff split: option.splits)

text \<open>What a call of \<open>completeScan\<close> by the service does: it is recorded, and either
  nothing else changes for the jobs, or the first waiting scan starts.\<close>

lemma callCompleteScan_released [simp]:
  "released (callCompleteScan rid err s) = released s @ [(rid, err)]"
  by (simp add: callCompleteScan_def completeScan_def Let_def split: list.splits)

lemma callCompleteScan_recordUpdates [simp]:
  "recordUpdates (callCompleteScan rid err s) = recordUpdates s"
  by (simp add: callCompleteScan_def completeScan_def Let_def split: list.splits)

lemma callCompleteScan_error [simp]:
  "errorOf (callCompleteScan rid err s) = errorOf s"
  by (simp add: callCompleteScan_def completeScan_def Let_def split: list.splits)

lemma callCompleteScan_effect:
  "(pendingIds (callCompleteScan rid err s) = pendingIds s \<and>
    executingIds (callCompleteScan rid err s) = executingIds s \<and>
    statusOf (callCompleteScan rid err s) = statusOf s) \<or>
   (\<exists>nxt rest. pendingIds s = nxt # rest \<and>
      pendingIds (callCompleteScan rid err s) = rest \<and>
      executingIds (callCompleteScan rid err s) = executingIds s @ [nxt] \<and>
      statusOf (callCompleteScan rid err s) =
        (\<lambda>r. if r = nxt \<and> statusOf s r \<noteq> None then Some RUNNING else statusOf s r))"
  by (auto simp: callCompleteScan_def completeScan_def Let_def fun_eq_iff
           split: list.splits)

lemma consistent_callCompleteScan:
  assumes "consistent s"
  shows "consistent (callCompleteScan rid err s)"
  using callCompleteScan_effect [of rid err s]
proof (elim disjE exE conjE)
  assume "pendingIds (callCompleteScan rid err s) = pendingIds s"
    "executingIds (callCompleteScan rid err s) = executingIds s"
    "statusOf (callCompleteScan rid err s) = statusOf s"
  then show ?thesis using assms by (simp add: consistent_def)
next
  fix nxt rest
  assume p: "pendingIds s = nxt # rest"
    and p': "pendingIds (callCompleteScan rid err s) = rest"
    and e': "executingIds (callCompleteScan rid err s) = executingIds s @ [nxt]"
    and st: "statusOf (callCompleteScan rid err s) =
        (\<lambda>r. if r = nxt \<and> statusOf s r \<noteq> None then Some RUNNING else statusOf s r)"
  from assms p have nxt: "statusOf s nxt = Some PENDING" "nxt \<notin> set rest" "distinct rest"
    and rest: "\<forall>r \<in> set rest. statusOf s r = Some PENDING"
    and ex: "\<forall>r \<in> set (executingIds s). statusOf s r = Some RUNNING \<or> statusOf s r = Some CANCELLED"
    and dex: "distinct (executingIds s)"
    by (auto simp: consistent_def list_all_iff)
  have "nxt \<notin> set (executingIds s)" using nxt ex by auto
  then show ?thesis
    unfolding consistent_def p' e' st list_all_iff
    using nxt rest ex dex by auto
qed

lemma callCompleteScan_status_kept:
  "consistent s \<Longrightarrow> statusOf s r \<noteq> Some PENDING \<Longrightarrow>
     statusOf (callCompleteScan rid err s) r = statusOf s r"
  using callCompleteScan_effect [of rid err s]
  by (auto simp: consistent_def list_all_iff)


lemma finalizeScan_fst: "fst (finalizeScan env rid sid req s) = finalizeFailure env"
  by (simp add: finalizeScan_def finalizeFailure_def finalizeScan_success_def Let_def
           split: sum.splits option.splits)

lemma quiet_updateJobStatus:
  "quiet rid st s (updateJobStatus rid st p None stp s)"
  by (auto simp: quiet_def fun_eq_iff updateJobStatus_error truthy_def)

lemma quiet_trans:
  "quiet rid st s s1 \<Longrightarrow> quiet rid st' s1 s2 \<Longrightarrow> quiet rid st' s s2"
  by (auto simp: quiet_def fun_eq_iff)

lemma quiet_uploads:
  "quiet rid st s s1 \<Longrightarrow> quiet rid st s (s1\<lparr>uploads := u\<rparr>)"
  "quiet rid st s s1 \<Longrightarrow> quiet rid st s (s1\<lparr>notifications := n\<rparr>)"
  by (auto simp: quiet_def)

lemma finalizeScan_failure:
  "finalizeFailure env = Some e \<Longrightarrow> quiet rid RUNNING s (snd (finalizeScan env rid sid req s))"
  using quiet_updateJobStatus [of rid RUNNING s "Some 90" "Some ''Processing scan results''"]
  by (auto simp: finalizeScan_def finalizeFailure_def finalizeScan_success_def Let_def quiet_uploads
           split: sum.splits option.splits if_splits)

lemma finalizeScan_returns:
  "finalizeFailure env = None \<Longrightarrow>
     \<exists>s2. snd (finalizeScan env rid sid req s) = callCompleteScan rid None s2 \<and>
          quiet rid SUCCESS s s2"
proof -
  let ?s1 = "updateJobStatus rid RUNNING (Some 90) None (Some ''Processing scan results'') s"
  have q1: "quiet rid RUNNING s ?s1" by (rule quiet_updateJobStatus)
  have fin: "\<exists>s2. snd (finalizeScan_success rid s') = callCompleteScan rid None s2 \<and>
                 quiet rid SUCCESS s s2" if "quiet rid RUNNING s s'" for s'
    using quiet_trans [OF that quiet_updateJobStatus [of rid SUCCESS s' "Some 100" "Some ''Scan completed successfully''"]]
    by (auto simp: finalizeScan_success_def)
  assume "finalizeFailure env = None"
  then show ?thesis
    using fin [OF quiet_uploads(1) [OF q1]] fin [OF quiet_uploads(2) [OF quiet_uploads(1) [OF q1]]]
    by (auto simp: finalizeScan_def finalizeFailure_def Let_def
             split: sum.splits option.splits if_splits)
qed


lemma known_iff: "(errorOf s r = None) = (statusOf s r = None)"
  by (simp add: errorOf_def statusOf_def)

lemma executeScan_catch_shape:
  "queue (snd (executeScan_catch u rid sid e s)) = queue s"
  "executing (snd (executeScan_catch u rid sid e s)) = executing s"
  "released (snd (executeScan_catch u rid sid e s)) = released s"
  "fst (executeScan_catch u rid sid e s) = (case u of None \<Rightarrow> e | Some e2 \<Rightarrow> e2)"
  "statusOf (snd (executeScan_catch u rid sid e s)) =
     (\<lambda>r. if r = rid \<and> statusOf s rid \<noteq> None \<and> u = None then Some FAILED else statusOf s r)"
  "recordUpdates (snd (executeScan_catch u rid sid e s)) =
     (if u = None
      then recordUpdates s @ [(sid, \<lparr>upd_status = FAILED, upd_errorMessage = Some (errorMessage e)\<rparr>)]
      else recordUpdates s)"
  "errorOf (snd (executeScan_catch u rid sid e s)) =
     (\<lambda>r. if r = rid \<and> statusOf s rid \<noteq> None \<and> u = None \<and> errorMessage e \<noteq> []
          then Some (Some (errorMessage e)) else errorOf s r)"
  by (auto simp: executeScan_catch_def Let_def fun_eq_iff updateJobStatus_jobs truthy_def
                 errorOf_def statusOf_def
           split: option.splits)

text \<open>When a dispatcher operation settles with a failure, of the dispatcher or of
  \<open>finalizeScan\<close>, the job is set to \<open>FAILED\<close> and \<open>completeScan\<close> is called once, as
  the last step.\<close>

lemma dispatcherSettled_failure:
  assumes "thrown env = Some e"
  shows "\<exists>s1. dispatcherSettled env ex s
              = callCompleteScan (ex_requestId ex) (Some (errorMessage (boundaryError env e))) s1 \<and>
            queue s1 = queue s \<and> executing s1 = remove1 ex (executing s) \<and>
            released s1 = released s \<and>
            statusOf s1 = (\<lambda>r. if r = ex_requestId ex \<and> statusOf s r \<noteq> None
                               then Some FAILED else statusOf s r) \<and>
            recordUpdates s1 =
              (if set_updateScanRecord env = None
               then recordUpdates s @
                      [(ex_scanId ex, \<lparr>upd_status = FAILED, upd_errorMessage = Some (errorMessage e)\<rparr>)]
               else recordUpdates s) \<and>
            errorOf s1 (ex_requestId ex) =
              (if statusOf s (ex_requestId ex) \<noteq> None \<and> errorMessage (boundaryError env e) \<noteq> []
               then Some (Some (errorMessage (boundaryError env e)))
               else errorOf s (ex_requestId ex))"
proof -
  let ?rid = "ex_requestId ex"
  let ?s0 = "s\<lparr>executing := remove1 ex (executing s)\<rparr>"
  obtain sc where sc: "executeScan_resume env ex ?s0
      = (Some (boundaryError env e),
         snd (executeScan_catch (set_updateScanRecord env) ?rid (ex_scanId ex) e sc))"
    and q: "queue sc = queue s" "executing sc = remove1 ex (executing s)"
      "released sc = released s" "recordUpdates sc = recordUpdates s" "errorOf sc = errorOf s"
    and st: "\<forall>r. r \<noteq> ?rid \<longrightarrow> statusOf sc r = statusOf s r"
      "statusOf sc ?rid \<noteq> None \<longleftrightarrow> statusOf s ?rid \<noteq> None"
  proof (cases "set_dispatcher env")
    case (Some d)
    then have "d = e" using assms by (simp add: thrown_def)
    then have "executeScan_resume env ex ?s0
      = (Some (boundaryError env e),
         snd (executeScan_catch (set_updateScanRecord env) ?rid (ex_scanId ex) e ?s0))"
      using Some
      by (simp add: executeScan_resume_def boundaryError_def executeScan_catch_shape(4)
                    split_beta)
    then show ?thesis using that [of ?s0] by simp
  next
    case None
    then have ff: "finalizeFailure (set_finalize env) = Some e"
      using assms by (simp add: thrown_def)
    let ?f = "finalizeScan (set_finalize env) ?rid (ex_scanId ex) (ex_request ex) ?s0"
    have f1: "fst ?f = Some e" using ff by (simp add: finalizeScan_fst)
    have qf: "quiet ?rid RUNNING ?s0 (snd ?f)" by (rule finalizeScan_failure [OF ff])
    have "executeScan_resume env ex ?s0
      = (Some (boundaryError env e),
         snd (executeScan_catch (set_updateScanRecord env) ?rid (ex_scanId ex) e (snd ?f)))"
      using None f1
      by (cases ?f)
         (simp add: executeScan_resume_def boundaryError_def executeScan_catch_shape(4)
                    split_beta)
    then show ?thesis using that [of "snd ?f"] qf by (simp add: quiet_def)
  qed
  let ?s1 = "snd (executeScan_catch (set_updateScanRecord env) ?rid (ex_scanId ex) e sc)"
  let ?msg = "errorMessage (boundaryError env e)"
  let ?s2 = "updateJobStatus ?rid FAILED None (Some ?msg) None ?s1"
  have eq: "dispatcherSettled env ex s = callCompleteScan ?rid (Some ?msg) ?s2"
    using sc by (simp add: dispatcherSettled_def)
  have known1: "statusOf ?s1 ?rid \<noteq> None \<longleftrightarrow> statusOf s ?rid \<noteq> None"
    using st by (simp add: executeScan_catch_shape)
  have "statusOf ?s2 = (\<lambda>r. if r = ?rid \<and> statusOf s r \<noteq> None then Some FAILED else statusOf s r)"
  proof (rule ext)
    fix r
    show "statusOf ?s2 r = (if r = ?rid \<and> statusOf s r \<noteq> None then Some FAILED else statusOf s r)"
      using st known1 by (cases "r = ?rid") (auto simp: executeScan_catch_shape)
  qed
  moreover have "errorOf ?s2 ?rid =
      (if statusOf s ?rid \<noteq> None \<and> ?msg \<noteq> [] then Some (Some ?msg) else errorOf s ?rid)"
  proof (cases "statusOf s ?rid")
    case None
    then have "errorOf s ?rid = None" by (simp add: errorOf_def statusOf_def)
    then show ?thesis
      using None known1 q st(2)
      by (simp add: updateJobStatus_error executeScan_catch_shape known_iff)
  next
    case (Some y)
    then have k0: "statusOf s ?rid \<noteq> None" "errorOf s ?rid \<noteq> None"
      by (auto simp: errorOf_def statusOf_def)
    then have k: "statusOf s ?rid \<noteq> None" "errorOf s ?rid \<noteq> None" "errorOf sc ?rid \<noteq> None"
      using q(5) by simp_all
    show ?thesis
      using k known1 q
      by (cases "set_updateScanRecord env")
         (auto simp: updateJobStatus_error executeScan_catch_shape truthy_def known_iff
                     boundaryError_def)
  qed
  ultimately show ?thesis
    using eq q by (intro exI [of _ ?s2]) (simp add: executeScan_catch_shape)
qed

lemma dispatcherSettled_success:
  assumes "thrown env = None"
  shows "\<exists>s1. dispatcherSettled env ex s = callCompleteScan (ex_requestId ex) None s1 \<and>
            queue s1 = queue s \<and> executing s1 = remove1 ex (executing s) \<and>
            released s1 = released s \<and> recordUpdates s1 = recordUpdates s \<and>
            errorOf s1 = errorOf s \<and>
            statusOf s1 = (\<lambda>r. if r = ex_requestId ex \<and> statusOf s r \<noteq> None
                               then Some SUCCESS else statusOf s r)"
proof -
  let ?rid = "ex_requestId ex"
  let ?s0 = "s\<lparr>executing := remove1 ex (executing s)\<rparr>"
  let ?f = "finalizeScan (set_finalize env) ?rid (ex_scanId ex) (ex_request ex) ?s0"
  from assms have d: "set_dispatcher env = None" and ff: "finalizeFailure (set_finalize env) = None"
    by (auto simp: thrown_def split: option.splits)
  have f1: "fst ?f = None" using ff by (simp add: finalizeScan_fst)
  obtain s2 where s2: "snd ?f = callCompleteScan ?rid None s2" "quiet ?rid SUCCESS ?s0 s2"
    using finalizeScan_returns [OF ff, of ?rid "ex_scanId ex" "ex_request ex" ?s0] by blast
  have "dispatcherSettled env ex s = snd ?f"
    using d f1 by (cases ?f) (simp add: dispatcherSettled_def executeScan_resume_def)
  then show ?thesis
    using s2 by (intro exI [of _ s2]) (auto simp: quiet_def fun_eq_iff)
qed

text \<open>The queue operations on the waiting scans.\<close>

lemma insertBy_set [simp]: "set (insertBy ahead x xs) = insert x (set xs)"
  by (induction xs) auto

lemma insertBy_distinct:
  "distinct (map f (insertBy ahead x xs)) \<longleftrightarrow> f x \<notin> f ` set xs \<and> distinct (map f xs)"
  by (induction xs) auto

lemma cancelQueuedScan_absent:
  "rid \<notin> set (map q_requestId (pending q)) \<Longrightarrow> cancelQueuedScan rid q = (False, q)"
  by (auto simp: cancelQueuedScan_def list_ex_iff)

lemma cancelQueuedScan_present:
  "rid \<in> set (map q_requestId (pending q)) \<Longrightarrow>
     cancelQueuedScan rid q = (True, q\<lparr>pending := filter (\<lambda>r. q_requestId r \<noteq> rid) (pending q)\<rparr>)"
  by (auto simp: cancelQueuedScan_def list_ex_iff)

lemma filter_ids:
  "map q_requestId (filter (\<lambda>r. q_requestId r \<noteq> rid) xs) = filter (\<lambda>r. r \<noteq> rid) (map q_requestId xs)"
  by (induction xs) auto

lemma statusOf_jobs [simp]:
  "jobs s r = Some j \<Longrightarrow> statusOf s r = Some (job_status j)"
  "jobs s r = None \<Longrightarrow> statusOf s r = None"
  by (simp_all add: statusOf_def)

text \<open>\<open>cancelScan\<close> of a request that neither waits nor runs changes nothing.\<close>

lemma cancelScan_noop:
  "rid \<notin> set (pendingIds s) \<Longrightarrow> statusOf s rid \<noteq> Some RUNNING \<Longrightarrow>
     cancelScan u rid s = (Inr False, s)"
  by (auto simp: cancelScan_def cancelQueuedScan_absent statusOf_def Let_def split: option.splits)

lemma consistent_pending:
  "consistent s \<Longrightarrow> rid \<in> set (pendingIds s) \<Longrightarrow> statusOf s rid = Some PENDING"
  by (auto simp: consistent_def list_all_iff)

lemma consistent_executing:
  "consistent s \<Longrightarrow> rid \<in> set (executingIds s) \<Longrightarrow>
     statusOf s rid = Some RUNNING \<or> statusOf s rid = Some CANCELLED"
  by (auto simp: consistent_def list_all_iff)

text \<open>A change of the status of a job that neither waits nor executes, or a change to
  \<open>CANCELLED\<close> of a job that executes, keeps the state consistent.\<close>

lemma consistent_status_change:
  assumes "consistent s"
    and "pendingIds s1 = filter (\<lambda>r. r \<noteq> rid) (pendingIds s)"
    and "executingIds s1 = executingIds s"
    and "statusOf s1 = (\<lambda>r. if r = rid \<and> statusOf s r \<noteq> None then Some st else statusOf s r)"
    and "rid \<in> set (executingIds s) \<Longrightarrow> st = CANCELLED \<or> st = RUNNING"
  shows "consistent s1"
  using assms unfolding consistent_def list_all_iff by auto

lemma cancelScan_pending:
  assumes "rid \<in> set (pendingIds s)"
  shows "pendingIds (snd (cancelScan u rid s)) = filter (\<lambda>r. r \<noteq> rid) (pendingIds s) \<and>
         executingIds (snd (cancelScan u rid s)) = executingIds s \<and>
         released (snd (cancelScan u rid s)) = released s \<and>
         statusOf (snd (cancelScan u rid s)) =
           (\<lambda>r. if r = rid \<and> statusOf s r \<noteq> None then Some CANCELLED else statusOf s r)"
  using assms
  by (auto simp: cancelScan_def cancelQueuedScan_present Let_def filter_ids fun_eq_iff
           split: option.splits)

lemma cancelScan_running:
  assumes "rid \<notin> set (pendingIds s)" and "statusOf s rid = Some RUNNING"
  shows "\<exists>s1. pendingIds s1 = pendingIds s \<and> executingIds s1 = executingIds s \<and>
            released s1 = released s \<and>
            statusOf s1 = (\<lambda>r. if r = rid then Some CANCELLED else statusOf s r) \<and>
            snd (cancelScan u rid s) =
              (case u of None \<Rightarrow> callCompleteScan rid (Some ''Cancelled by user'') s1
                       | Some e \<Rightarrow> s1) \<and>
            fst (cancelScan u rid s) = (case u of None \<Rightarrow> Inr True | Some e \<Rightarrow> Inl e)"
proof -
  obtain job where job: "jobs s rid = Some job" "job_status job = RUNNING"
    using assms(2) by (auto simp: statusOf_def)
  let ?s1 = "updateJobStatus rid CANCELLED None None None (cleanup rid s)"
  let ?s2 = "?s1\<lparr>recordUpdates := recordUpdates ?s1 @
               [(job_scanId job, \<lparr>upd_status = CANCELLED, upd_errorMessage = None\<rparr>)]\<rparr>"
  have st: "statusOf ?s1 = (\<lambda>r. if r = rid then Some CANCELLED else statusOf s r)"
    using assms(2) by (auto simp: fun_eq_iff)
  show ?thesis
  proof (cases u)
    case None
    then show ?thesis
      using assms(1) job st
      by (intro exI [of _ ?s2])
         (simp add: cancelScan_def cancelQueuedScan_absent Let_def)
  next
    case (Some e)
    then show ?thesis
      using assms(1) job st
      by (intro exI [of _ ?s1])
         (simp add: cancelScan_def cancelQueuedScan_absent Let_def)
  qed
qed


lemma consistent_change:
  assumes "consistent s"
    and "set (pendingIds s1) \<subseteq> set (pendingIds s)" and "distinct (pendingIds s1)"
    and "set (executingIds s1) \<subseteq> set (executingIds s)" and "distinct (executingIds s1)"
    and "\<forall>r. r \<noteq> rid \<longrightarrow> statusOf s1 r = statusOf s r"
    and "rid \<in> set (pendingIds s1) \<Longrightarrow> statusOf s1 rid = Some PENDING"
    and "rid \<in> set (executingIds s1) \<Longrightarrow>
           statusOf s1 rid = Some RUNNING \<or> statusOf s1 rid = Some CANCELLED"
  shows "consistent s1"
  unfolding consistent_def list_all_iff
proof (intro conjI ballI)
  fix r assume r: "r \<in> set (pendingIds s1)"
  show "statusOf s1 r = Some PENDING"
  proof (cases "r = rid")
    case True then show ?thesis using r assms(7) by simp
  next
    case False
    have "r \<in> set (pendingIds s)" using r assms(2) by (rule subsetD [rotated])
    then have "statusOf s r = Some PENDING" by (rule consistent_pending [OF assms(1)])
    then show ?thesis using False assms(6) by simp
  qed
next
  fix r assume r: "r \<in> set (executingIds s1)"
  show "statusOf s1 r = Some RUNNING \<or> statusOf s1 r = Some CANCELLED"
  proof (cases "r = rid")
    case True then show ?thesis using r assms(8) by simp
  next
    case False
    have "r \<in> set (executingIds s)" using r assms(4) by (rule subsetD [rotated])
    then have "statusOf s r = Some RUNNING \<or> statusOf s r = Some CANCELLED"
      by (rule consistent_executing [OF assms(1)])
    then show ?thesis using False assms(6) by simp
  qed
qed (use assms in simp_all)

lemma statusOf_jobs_upd [simp]:
  "statusOf (s\<lparr>jobs := (jobs s)(k \<mapsto> j)\<rparr>) = (statusOf s)(k := Some (job_status j))"
  by (simp add: statusOf_def fun_eq_iff)

text \<open>\<open>startScan\<close> registers the job and either starts the scan or lets it wait.\<close>

lemma startScan_throws:
  "st_initializeScanRecord env = Inl e \<Longrightarrow> snd (startScan ahead env req prio s) = s"
  by (simp add: startScan_def)

lemma startScan_shape:
  assumes "st_initializeScanRecord env = Inr (sid, iid)"
  shows "released (snd (startScan ahead env req prio s)) = released s \<and>
         ((pendingIds (snd (startScan ahead env req prio s)) = pendingIds s \<and>
           executingIds (snd (startScan ahead env req prio s)) = executingIds s @ [st_requestId env] \<and>
           statusOf (snd (startScan ahead env req prio s))
             = (statusOf s)(st_requestId env := Some RUNNING)) \<or>
          (set (pendingIds (snd (startScan ahead env req prio s)))
             = insert (st_requestId env) (set (pendingIds s)) \<and>
           (distinct (pendingIds (snd (startScan ahead env req prio s))) \<longleftrightarrow>
              st_requestId env \<notin> set (pendingIds s) \<and> distinct (pendingIds s)) \<and>
           executingIds (snd (startScan ahead env req prio s)) = executingIds s \<and>
           statusOf (snd (startScan ahead env req prio s))
             = (statusOf s)(st_requestId env := Some PENDING)))"
proof (cases "length (running (queue s)) < maxConcurrent (queue s)")
  case True
  then show ?thesis
    using assms
    by (auto simp: startScan_def addToQueue_def Let_def fun_eq_iff getQueuePosition_def
             split: option.splits)
next
  case False
  then show ?thesis
    using assms
    by (auto simp: startScan_def addToQueue_def Let_def fun_eq_iff getQueuePosition_def
                   insertBy_distinct
             split: option.splits)
qed

lemma consistent_startScan:
  assumes "consistent s" and "statusOf s (st_requestId env) = None"
  shows "consistent (snd (startScan ahead env req prio s))"
proof (cases "st_initializeScanRecord env")
  case (Inl e)
  then show ?thesis using assms(1) by (simp add: startScan_throws)
next
  case (Inr p)
  obtain sid iid where p: "p = (sid, iid)" by (cases p)
  let ?new = "st_requestId env"
  have fresh: "?new \<notin> set (pendingIds s)" "?new \<notin> set (executingIds s)"
    using assms consistent_pending [of s ?new] consistent_executing [of s ?new] by auto
  from startScan_shape [OF Inr [unfolded p], of ahead req prio s] show ?thesis
  proof (elim conjE disjE)
    assume a: "pendingIds (snd (startScan ahead env req prio s)) = pendingIds s"
      "executingIds (snd (startScan ahead env req prio s)) = executingIds s @ [?new]"
      "statusOf (snd (startScan ahead env req prio s)) = (statusOf s)(?new := Some RUNNING)"
    have "statusOf s r = Some PENDING" if "r \<in> set (pendingIds s)" for r
      using that by (rule consistent_pending [OF assms(1)])
    moreover have "statusOf s r = Some RUNNING \<or> statusOf s r = Some CANCELLED"
      if "r \<in> set (executingIds s)" for r
      using that by (rule consistent_executing [OF assms(1)])
    moreover have "distinct (pendingIds s)" "distinct (executingIds s)"
      using assms(1) by (simp_all add: consistent_def)
    ultimately show ?thesis
      unfolding consistent_def a list_all_iff
      using fresh by (auto simp del: set_map)
  next
    assume a: "set (pendingIds (snd (startScan ahead env req prio s)))
                 = insert ?new (set (pendingIds s))"
      "distinct (pendingIds (snd (startScan ahead env req prio s))) \<longleftrightarrow>
         ?new \<notin> set (pendingIds s) \<and> distinct (pendingIds s)"
      "executingIds (snd (startScan ahead env req prio s)) = executingIds s"
      "statusOf (snd (startScan ahead env req prio s)) = (statusOf s)(?new := Some PENDING)"
    have "statusOf s r = Some PENDING" if "r \<in> set (pendingIds s)" for r
      using that by (rule consistent_pending [OF assms(1)])
    moreover have "statusOf s r = Some RUNNING \<or> statusOf s r = Some CANCELLED"
      if "r \<in> set (executingIds s)" for r
      using that by (rule consistent_executing [OF assms(1)])
    moreover have "distinct (pendingIds s)" "distinct (executingIds s)"
      using assms(1) by (simp_all add: consistent_def)
    ultimately show ?thesis
      unfolding consistent_def a list_all_iff
      using fresh by (auto simp del: set_map)
  qed
qed

lemma startScan_frame:
  "r \<noteq> st_requestId env \<Longrightarrow>
     statusOf (snd (startScan ahead env req prio s)) r = statusOf s r"
  "released (snd (startScan ahead env req prio s)) = released s"
proof -
  show "released (snd (startScan ahead env req prio s)) = released s"
  proof (cases "st_initializeScanRecord env")
    case (Inl e) then show ?thesis by (simp add: startScan_throws)
  next
    case (Inr p)
    obtain sid iid where p: "p = (sid, iid)" by (cases p)
    show ?thesis using startScan_shape [OF Inr [unfolded p], of ahead req prio s] by simp
  qed
  assume r: "r \<noteq> st_requestId env"
  show "statusOf (snd (startScan ahead env req prio s)) r = statusOf s r"
  proof (cases "st_initializeScanRecord env")
    case (Inl e) then show ?thesis by (simp add: startScan_throws)
  next
    case (Inr p)
    obtain sid iid where p: "p = (sid, iid)" by (cases p)
    show ?thesis using startScan_shape [OF Inr [unfolded p], of ahead req prio s] r by auto
  qed
qed


lemma distinct_map_remove1:
  "distinct (map f xs) \<Longrightarrow> distinct (map f (remove1 x xs))"
proof (induction xs)
  case Nil then show ?case by simp
next
  case (Cons a xs)
  have "f a \<notin> f ` set (remove1 x xs)"
    using Cons.prems set_remove1_subset [of x xs] by auto
  then show ?case using Cons by auto
qed

lemma remove1_map_notin:
  "distinct (map f xs) \<Longrightarrow> x \<in> set xs \<Longrightarrow> f x \<notin> f ` set (remove1 x xs)"
proof (induction xs)
  case Nil then show ?case by simp
next
  case (Cons a xs)
  show ?case
  proof (cases "x = a")
    case True then show ?thesis using Cons.prems by auto
  next
    case False
    then have x: "x \<in> set xs" using Cons.prems by simp
    then have "f x \<in> f ` set xs" by (rule imageI)
    then have "f x \<noteq> f a" using Cons.prems(1) by auto
    moreover have "f x \<notin> f ` set (remove1 x xs)" using Cons x by simp
    ultimately show ?thesis using False by simp
  qed
qed

lemma dispatcherSettled_shape:
  "\<exists>s1 err. dispatcherSettled env ex s = callCompleteScan (ex_requestId ex) err s1 \<and>
      queue s1 = queue s \<and> executing s1 = remove1 ex (executing s) \<and>
      released s1 = released s \<and>
      statusOf s1 = (\<lambda>r. if r = ex_requestId ex \<and> statusOf s r \<noteq> None
                         then Some (settledStatus env) else statusOf s r)"
proof (cases "thrown env")
  case None
  obtain s1 where "dispatcherSettled env ex s = callCompleteScan (ex_requestId ex) None s1"
    "queue s1 = queue s" "executing s1 = remove1 ex (executing s)" "released s1 = released s"
    "statusOf s1 = (\<lambda>r. if r = ex_requestId ex \<and> statusOf s r \<noteq> None
                       then Some SUCCESS else statusOf s r)"
    using dispatcherSettled_success [OF None, of ex s] by blast
  moreover have "settledStatus env = SUCCESS" using None by (simp add: settledStatus_def)
  ultimately show ?thesis
    by (intro exI [of _ s1] exI [of _ None]) (simp cong: if_cong)
next
  case (Some e)
  obtain s1 where "dispatcherSettled env ex s
      = callCompleteScan (ex_requestId ex) (Some (errorMessage (boundaryError env e))) s1"
    "queue s1 = queue s" "executing s1 = remove1 ex (executing s)" "released s1 = released s"
    "statusOf s1 = (\<lambda>r. if r = ex_requestId ex \<and> statusOf s r \<noteq> None
                       then Some FAILED else statusOf s r)"
    using dispatcherSettled_failure [OF Some, of ex s] by blast
  moreover have "settledStatus env = FAILED" using Some by (simp add: settledStatus_def)
  ultimately show ?thesis
    by (intro exI [of _ s1] exI [of _ "Some (errorMessage (boundaryError env e))"])
       (simp cong: if_cong)
qed

text \<open>The state in which a settled operation calls \<open>completeScan\<close> is consistent.\<close>

lemma consistent_settling:
  assumes "consistent s" and "ex \<in> set (executing s)"
    and "queue s1 = queue s" and "executing s1 = remove1 ex (executing s)"
    and "statusOf s1 = (\<lambda>r. if r = ex_requestId ex \<and> statusOf s r \<noteq> None
                            then Some st else statusOf s r)"
  shows "consistent s1" and "ex_requestId ex \<notin> set (executingIds s1)"
    and "ex_requestId ex \<notin> set (pendingIds s1)"
proof -
  let ?rid = "ex_requestId ex"
  have d: "distinct (executingIds s)" "distinct (pendingIds s)"
    using assms(1) by (simp_all add: consistent_def)
  have "?rid \<in> set (executingIds s)" using assms(2) by auto
  then have run: "statusOf s ?rid = Some RUNNING \<or> statusOf s ?rid = Some CANCELLED"
    by (rule consistent_executing [OF assms(1)])
  show notex: "?rid \<notin> set (executingIds s1)"
    using remove1_map_notin [OF d(1) assms(2)] assms(4) by simp
  show notpend: "?rid \<notin> set (pendingIds s1)"
    using consistent_pending [OF assms(1), of ?rid] run assms(3) by auto
  show "consistent s1"
  proof (rule consistent_change [OF assms(1), where rid = ?rid])
    show "set (pendingIds s1) \<subseteq> set (pendingIds s)" using assms(3) by simp
    show "distinct (pendingIds s1)" using assms(3) d by simp
    show "set (executingIds s1) \<subseteq> set (executingIds s)"
      using assms(4) set_remove1_subset [of ex "executing s"] by auto
    show "distinct (executingIds s1)" using assms(4) distinct_map_remove1 [OF d(1)] by simp
    show "\<forall>r. r \<noteq> ?rid \<longrightarrow> statusOf s1 r = statusOf s r" using assms(5) by simp
    show "statusOf s1 ?rid = Some PENDING" if "?rid \<in> set (pendingIds s1)"
      using that notpend by simp
    show "statusOf s1 ?rid = Some RUNNING \<or> statusOf s1 ?rid = Some CANCELLED"
      if "?rid \<in> set (executingIds s1)"
      using that notex by simp
  qed
qed

lemma consistent_dispatcherSettled:
  assumes "consistent s" and "ex \<in> set (executing s)"
  shows "consistent (dispatcherSettled env ex s)"
proof -
  obtain s1 err where s1: "dispatcherSettled env ex s = callCompleteScan (ex_requestId ex) err s1"
    "queue s1 = queue s" "executing s1 = remove1 ex (executing s)"
    "statusOf s1 = (\<lambda>r. if r = ex_requestId ex \<and> statusOf s r \<noteq> None
                       then Some (settledStatus env) else statusOf s r)"
    using dispatcherSettled_shape [of env ex s] by blast
  have "consistent s1" by (rule consistent_settling(1) [OF assms s1(2,3,4)])
  then show ?thesis unfolding s1(1) by (rule consistent_callCompleteScan)
qed

lemma consistent_cancelScan:
  assumes "consistent s"
  shows "consistent (snd (cancelScan u rid s))"
proof (cases "rid \<in> set (pendingIds s)")
  case True
  note c = cancelScan_pending [OF True, of u]
  have pend: "statusOf s rid = Some PENDING" by (rule consistent_pending [OF assms True])
  have d: "distinct (executingIds s)" "distinct (pendingIds s)"
    using assms by (simp_all add: consistent_def)
  show ?thesis
  proof (rule consistent_change [OF assms, where rid = rid])
    show "set (pendingIds (snd (cancelScan u rid s))) \<subseteq> set (pendingIds s)"
      using c by auto
    show "distinct (pendingIds (snd (cancelScan u rid s)))" using c d by simp
    show "set (executingIds (snd (cancelScan u rid s))) \<subseteq> set (executingIds s)"
      using c by simp
    show "distinct (executingIds (snd (cancelScan u rid s)))" using c d by simp
    show "\<forall>r. r \<noteq> rid \<longrightarrow> statusOf (snd (cancelScan u rid s)) r = statusOf s r"
      using c by simp
    show "statusOf (snd (cancelScan u rid s)) rid = Some PENDING"
      if "rid \<in> set (pendingIds (snd (cancelScan u rid s)))"
      using that c by simp
    show "statusOf (snd (cancelScan u rid s)) rid = Some RUNNING \<or>
          statusOf (snd (cancelScan u rid s)) rid = Some CANCELLED"
      if "rid \<in> set (executingIds (snd (cancelScan u rid s)))"
      using c pend by simp
  qed
next
  case False
  show ?thesis
  proof (cases "statusOf s rid = Some RUNNING")
    case notrun: False
    then show ?thesis using assms cancelScan_noop [OF False notrun] by simp
  next
    case True
    obtain s1 where s1: "pendingIds s1 = pendingIds s" "executingIds s1 = executingIds s"
      "statusOf s1 = (\<lambda>r. if r = rid then Some CANCELLED else statusOf s r)"
      "snd (cancelScan u rid s) =
         (case u of None \<Rightarrow> callCompleteScan rid (Some ''Cancelled by user'') s1 | Some e \<Rightarrow> s1)"
      using cancelScan_running [OF False True, of u] by blast
    have d: "distinct (executingIds s)" "distinct (pendingIds s)"
      using assms by (simp_all add: consistent_def)
    have "consistent s1"
    proof (rule consistent_change [OF assms, where rid = rid])
      show "set (pendingIds s1) \<subseteq> set (pendingIds s)" using s1 by simp
      show "distinct (pendingIds s1)" using s1 d by simp
      show "set (executingIds s1) \<subseteq> set (executingIds s)" using s1 by simp
      show "distinct (executingIds s1)" using s1 d by simp
      show "\<forall>r. r \<noteq> rid \<longrightarrow> statusOf s1 r = statusOf s r" using s1 by simp
      show "statusOf s1 rid = Some PENDING" if "rid \<in> set (pendingIds s1)"
        using that s1(1) False by simp
      show "statusOf s1 rid = Some RUNNING \<or> statusOf s1 rid = Some CANCELLED"
        if "rid \<in> set (executingIds s1)"
        using s1 by simp
    qed
    then show ?thesis
      unfolding s1(4) by (cases u) (simp_all add: consistent_callCompleteScan)
  qed
qed

lemma find_executing:
  "find (\<lambda>ex. ex_requestId ex = rid) (executing s) = Some ex \<Longrightarrow>
     ex \<in> set (executing s) \<and> ex_requestId ex = rid"
  by (auto simp: find_Some_iff)

lemma find_executing_None:
  "find (\<lambda>ex. ex_requestId ex = rid) (executing s) = None \<longleftrightarrow> rid \<notin> set (executingIds s)"
  by (auto simp: find_None_iff)

lemma consistent_step:
  assumes "consistent s"
  shows "consistent (step ahead s op)"
proof (cases op)
  case (StartScan env req prio)
  then show ?thesis
    using assms consistent_startScan [OF assms, of env ahead req prio]
    by (simp add: statusOf_def)
next
  case (Settle env rid)
  show ?thesis
  proof (cases "find (\<lambda>ex. ex_requestId ex = rid) (executing s)")
    case None
    then show ?thesis using assms Settle by simp
  next
    case (Some ex)
    then have "ex \<in> set (executing s)" using find_executing by blast
    then have "consistent (dispatcherSettled env ex s)"
      by (rule consistent_dispatcherSettled [OF assms])
    then show ?thesis using Settle Some by simp
  qed
next
  case (CancelScan u rid)
  then show ?thesis using consistent_cancelScan [OF assms] by simp
qed

lemma consistent_initial: "consistent (initialService limit)"
  by (simp add: consistent_def initialService_def)

lemma consistent_run: "consistent (run ahead limit ops)"
proof (induction ops rule: rev_induct)
  case Nil
  then show ?case by (simp add: run_def consistent_initial)
next
  case (snoc op ops)
  then show ?case using consistent_step [of "run ahead limit ops" ahead op] by (simp add: run_def)
qed

lemma releaseCount_update [simp]:
  "releaseCount r (s\<lparr>queue := q\<rparr>) = releaseCount r s"
  "releaseCount r (s\<lparr>executing := ex\<rparr>) = releaseCount r s"
  "releaseCount r (s\<lparr>recordUpdates := ru\<rparr>) = releaseCount r s"
  "releaseCount r (s\<lparr>jobs := j\<rparr>) = releaseCount r s"
  by (simp_all add: releaseCount_def)

lemma releaseCount_callCompleteScan:
  "releaseCount r (callCompleteScan rid err s) = releaseCount r s + (if r = rid then 1 else 0)"
  by (simp add: releaseCount_def)

lemma releaseCount_eq: "released s1 = released s \<Longrightarrow> releaseCount r s1 = releaseCount r s"
  by (simp add: releaseCount_def)

text \<open>A call of \<open>completeScan\<close> leaves every status as it is, but for a waiting job that
  it starts.\<close>

lemma callCompleteScan_moves:
  assumes "consistent s"
  shows "statusOf (callCompleteScan rid err s) r = statusOf s r \<or>
         (statusOf s r = Some PENDING \<and> statusOf (callCompleteScan rid err s) r = Some RUNNING)"
  using callCompleteScan_effect [of rid err s]
proof (elim disjE exE conjE)
  fix nxt rest
  assume p: "pendingIds s = nxt # rest"
    and st: "statusOf (callCompleteScan rid err s) =
        (\<lambda>r. if r = nxt \<and> statusOf s r \<noteq> None then Some RUNNING else statusOf s r)"
  have "statusOf s nxt = Some PENDING"
    using consistent_pending [OF assms, of nxt] p by simp
  then show ?thesis unfolding st by simp
qed simp

text \<open>Every operation counts one more call of \<open>completeScan\<close> for no request but its
  own, and moves no job but its own, except from \<open>PENDING\<close> to \<open>RUNNING\<close>.\<close>

lemma dispatcherSettled_frame:
  assumes "consistent s" and "ex \<in> set (executing s)"
  shows "releaseCount r (dispatcherSettled env ex s)
           = releaseCount r s + (if r = ex_requestId ex then 1 else 0)"
    and "statusOf (dispatcherSettled env ex s) (ex_requestId ex) = Some (settledStatus env)"
    and "r \<noteq> ex_requestId ex \<Longrightarrow>
           statusOf (dispatcherSettled env ex s) r = statusOf s r \<or>
           (statusOf s r = Some PENDING \<and> statusOf (dispatcherSettled env ex s) r = Some RUNNING)"
proof -
  let ?rid = "ex_requestId ex"
  obtain s1 err where s1: "dispatcherSettled env ex s = callCompleteScan ?rid err s1"
    "queue s1 = queue s" "executing s1 = remove1 ex (executing s)" "released s1 = released s"
    "statusOf s1 = (\<lambda>r. if r = ?rid \<and> statusOf s r \<noteq> None
                       then Some (settledStatus env) else statusOf s r)"
    using dispatcherSettled_shape [of env ex s] by blast
  have c1: "consistent s1" by (rule consistent_settling(1) [OF assms s1(2,3,5)])
  have "?rid \<in> set (executingIds s)" using assms(2) by auto
  then have known: "statusOf s ?rid \<noteq> None"
    using consistent_executing [OF assms(1), of ?rid] by auto
  show "releaseCount r (dispatcherSettled env ex s)
          = releaseCount r s + (if r = ?rid then 1 else 0)"
    unfolding s1(1) releaseCount_callCompleteScan using releaseCount_eq [OF s1(4)] by simp
  have "statusOf s1 ?rid = Some (settledStatus env)" using known s1(5) by simp
  moreover have "settledStatus env \<noteq> PENDING" by (simp add: settledStatus_def)
  ultimately show "statusOf (dispatcherSettled env ex s) ?rid = Some (settledStatus env)"
    unfolding s1(1) using callCompleteScan_status_kept [OF c1, of ?rid ?rid err] by simp
  assume "r \<noteq> ?rid"
  then have "statusOf s1 r = statusOf s r" using s1(5) by simp
  then show "statusOf (dispatcherSettled env ex s) r = statusOf s r \<or>
      (statusOf s r = Some PENDING \<and> statusOf (dispatcherSettled env ex s) r = Some RUNNING)"
    unfolding s1(1) using callCompleteScan_moves [OF c1, of ?rid err r] by simp
qed

lemma cancelScan_frame:
  assumes "consistent s"
  shows "r \<noteq> rid \<Longrightarrow> releaseCount r (snd (cancelScan u rid s)) = releaseCount r s"
    and "r \<noteq> rid \<Longrightarrow>
           statusOf (snd (cancelScan u rid s)) r = statusOf s r \<or>
           (statusOf s r = Some PENDING \<and> statusOf (snd (cancelScan u rid s)) r = Some RUNNING)"
    and "rid \<in> set (pendingIds s) \<Longrightarrow>
           releaseCount rid (snd (cancelScan u rid s)) = releaseCount rid s"
    and "rid \<notin> set (pendingIds s) \<Longrightarrow> statusOf s rid = Some RUNNING \<Longrightarrow>
           releaseCount rid (snd (cancelScan u rid s))
             = releaseCount rid s + (if u = None then 1 else 0)"
proof -
  have pend: "releaseCount r (snd (cancelScan u rid s)) = releaseCount r s \<and>
              (r \<noteq> rid \<longrightarrow> statusOf (snd (cancelScan u rid s)) r = statusOf s r)"
    if "rid \<in> set (pendingIds s)" for r
    using cancelScan_pending [OF that, of u] by (simp add: releaseCount_def)
  have run: "releaseCount r (snd (cancelScan u rid s))
               = releaseCount r s + (if r = rid \<and> u = None then 1 else 0) \<and>
             (r \<noteq> rid \<longrightarrow> statusOf (snd (cancelScan u rid s)) r = statusOf s r \<or>
                (statusOf s r = Some PENDING \<and> statusOf (snd (cancelScan u rid s)) r = Some RUNNING))"
    if np: "rid \<notin> set (pendingIds s)" and st: "statusOf s rid = Some RUNNING" for r
  proof -
    obtain s1 where s1: "pendingIds s1 = pendingIds s" "executingIds s1 = executingIds s"
      "released s1 = released s"
      "statusOf s1 = (\<lambda>r. if r = rid then Some CANCELLED else statusOf s r)"
      "snd (cancelScan u rid s) =
         (case u of None \<Rightarrow> callCompleteScan rid (Some ''Cancelled by user'') s1 | Some e \<Rightarrow> s1)"
      using cancelScan_running [OF np st, of u] by blast
    have d: "distinct (executingIds s)" "distinct (pendingIds s)"
      using assms by (simp_all add: consistent_def)
    have c1: "consistent s1"
    proof (rule consistent_change [OF assms, where rid = rid])
      show "set (pendingIds s1) \<subseteq> set (pendingIds s)" using s1 by simp
      show "distinct (pendingIds s1)" using s1 d by simp
      show "set (executingIds s1) \<subseteq> set (executingIds s)" using s1 by simp
      show "distinct (executingIds s1)" using s1 d by simp
      show "\<forall>r. r \<noteq> rid \<longrightarrow> statusOf s1 r = statusOf s r" using s1 by simp
      show "statusOf s1 rid = Some PENDING" if "rid \<in> set (pendingIds s1)"
        using that s1(1) np by simp
      show "statusOf s1 rid = Some RUNNING \<or> statusOf s1 rid = Some CANCELLED"
        if "rid \<in> set (executingIds s1)"
        using s1 by simp
    qed
    show ?thesis
    proof (cases u)
      case None
      then show ?thesis
        using s1 callCompleteScan_moves [OF c1, of rid "Some ''Cancelled by user''" r]
          releaseCount_eq [OF s1(3), of r]
        by (auto simp: releaseCount_callCompleteScan)
    next
      case (Some e)
      then show ?thesis using s1 releaseCount_eq [OF s1(3), of r] by auto
    qed
  qed
  have noop: "snd (cancelScan u rid s) = s"
    if "rid \<notin> set (pendingIds s)" "statusOf s rid \<noteq> Some RUNNING"
    using cancelScan_noop [OF that, of u] by simp
  show "releaseCount r (snd (cancelScan u rid s)) = releaseCount r s" if "r \<noteq> rid"
    using that pend [of r] run [of r] noop
    by (cases "rid \<in> set (pendingIds s)"; cases "statusOf s rid = Some RUNNING") auto
  show "statusOf (snd (cancelScan u rid s)) r = statusOf s r \<or>
        (statusOf s r = Some PENDING \<and> statusOf (snd (cancelScan u rid s)) r = Some RUNNING)"
    if "r \<noteq> rid"
    using that pend [of r] run [of r] noop
    by (cases "rid \<in> set (pendingIds s)"; cases "statusOf s rid = Some RUNNING") auto
  show "releaseCount rid (snd (cancelScan u rid s)) = releaseCount rid s"
    if "rid \<in> set (pendingIds s)"
    using that pend [of rid] by simp
  show "releaseCount rid (snd (cancelScan u rid s)) = releaseCount rid s + (if u = None then 1 else 0)"
    if "rid \<notin> set (pendingIds s)" "statusOf s rid = Some RUNNING"
    using that run [of rid] by simp
qed

lemma step_frame:
  assumes "consistent s" and "r \<noteq> target op"
  shows "releaseCount r (step ahead s op) = releaseCount r s"
    and "statusOf (step ahead s op) r = statusOf s r \<or>
         (statusOf s r = Some PENDING \<and> statusOf (step ahead s op) r = Some RUNNING)"
proof -
  have "releaseCount r (step ahead s op) = releaseCount r s \<and>
        (statusOf (step ahead s op) r = statusOf s r \<or>
         (statusOf s r = Some PENDING \<and> statusOf (step ahead s op) r = Some RUNNING))"
  proof (cases op)
    case (StartScan env req prio)
    then show ?thesis
      using assms(2) startScan_frame(1) [where r = r and env = env and s = s]
        startScan_frame(2) [where env = env and s = s]
      by (simp add: target_def releaseCount_def)
  next
    case (Settle env rid)
    show ?thesis
    proof (cases "find (\<lambda>ex. ex_requestId ex = rid) (executing s)")
      case None
      then show ?thesis using Settle by simp
    next
      case (Some ex)
      then have ex: "ex \<in> set (executing s)" "ex_requestId ex = rid"
        using find_executing by blast+
      then show ?thesis
        using Settle Some assms(2) dispatcherSettled_frame(1,3) [OF assms(1) ex(1), of r env]
        by (simp add: target_def)
    qed
  next
    case (CancelScan u rid)
    then show ?thesis
      using assms(2) cancelScan_frame(1,2) [OF assms(1), of r rid u] by (simp add: target_def)
  qed
  then show "releaseCount r (step ahead s op) = releaseCount r s"
    and "statusOf (step ahead s op) r = statusOf s r \<or>
         (statusOf s r = Some PENDING \<and> statusOf (step ahead s op) r = Some RUNNING)"
    by simp_all
qed

text \<open>
  Claim C6. In every state that the operations reach, \<open>cancelScan\<close> of a request id
  that is unknown, or whose job is \<open>SUCCESS\<close>, \<open>FAILED\<close> or \<open>CANCELLED\<close>, returns
  \<open>false\<close> and leaves the whole state of the service as it was: the job, the queue,
  and no record update, event or call of \<open>completeScan\<close> is added.
\<close>

theorem cancelScan_unknown_or_terminal:
  assumes "statusOf (run ahead limit ops) rid = None \<or>
           statusOf (run ahead limit ops) rid = Some SUCCESS \<or>
           statusOf (run ahead limit ops) rid = Some FAILED \<or>
           statusOf (run ahead limit ops) rid = Some CANCELLED"
  shows "cancelScan updateFails rid (run ahead limit ops) = (Inr False, run ahead limit ops)"
proof (rule cancelScan_noop)
  show "rid \<notin> set (pendingIds (run ahead limit ops))"
    using consistent_pending [OF consistent_run, of rid ahead limit ops] assms by auto
  show "statusOf (run ahead limit ops) rid \<noteq> Some RUNNING"
    using assms by auto
qed

theorem cancelScan_unknown_or_terminal_witness:
  "statusOf (run priorityDesc 1
      [StartScan (exampleStart ''A'') exampleScanRequest None, Settle (settleOk cleanReports) ''A''])
      ''A'' = Some SUCCESS \<and>
   cancelScan None ''A'' (run priorityDesc 1
      [StartScan (exampleStart ''A'') exampleScanRequest None, Settle (settleOk cleanReports) ''A''])
     = (Inr False, run priorityDesc 1
      [StartScan (exampleStart ''A'') exampleScanRequest None, Settle (settleOk cleanReports) ''A''])"
proof -
  have h: "statusOf (run priorityDesc 1
      [StartScan (exampleStart ''A'') exampleScanRequest None, Settle (settleOk cleanReports) ''A''])
      ''A'' = Some SUCCESS"
    by code_simp
  show ?thesis
    using cancelScan_unknown_or_terminal [of priorityDesc 1 _ "''A''" None] h by blast
qed

text \<open>An operation starts dispatcher operations only for requests that were waiting or
  are new.\<close>

lemma callCompleteScan_executing:
  assumes "consistent s" and "r \<in> set (executingIds (callCompleteScan rid err s))"
  shows "r \<in> set (executingIds s) \<or> statusOf s r = Some PENDING"
  using callCompleteScan_effect [of rid err s]
proof (elim disjE exE conjE)
  fix nxt rest
  assume p: "pendingIds s = nxt # rest"
    and e: "executingIds (callCompleteScan rid err s) = executingIds s @ [nxt]"
  have "statusOf s nxt = Some PENDING"
    using consistent_pending [OF assms(1), of nxt] p by simp
  then show ?thesis using assms(2) unfolding e by auto
next
  assume "executingIds (callCompleteScan rid err s) = executingIds s"
  then show ?thesis using assms(2) by simp
qed

lemma step_executing:
  assumes "consistent s" and "r \<in> set (executingIds (step ahead s op))"
  shows "r \<in> set (executingIds s) \<or> statusOf s r = Some PENDING \<or> statusOf s r = None"
proof (cases op)
  case (StartScan env req prio)
  show ?thesis
  proof (cases "jobs s (st_requestId env) = None")
    case False
    then obtain j where "jobs s (st_requestId env) = Some j" by auto
    then show ?thesis using assms(2) StartScan by simp
  next
    case True
    then have fresh: "statusOf s (st_requestId env) = None" by simp
    show ?thesis
    proof (cases "st_initializeScanRecord env")
      case (Inl e)
      then show ?thesis using assms(2) StartScan True by (simp add: startScan_throws)
    next
      case (Inr p)
      obtain sid iid where p: "p = (sid, iid)" by (cases p)
      have "executingIds (snd (startScan ahead env req prio s)) = executingIds s @ [st_requestId env] \<or>
            executingIds (snd (startScan ahead env req prio s)) = executingIds s"
        using startScan_shape [OF Inr [unfolded p], of ahead req prio s] by blast
      then have "set (executingIds (snd (startScan ahead env req prio s)))
              \<subseteq> insert (st_requestId env) (set (executingIds s))"
      proof
        assume a: "executingIds (snd (startScan ahead env req prio s)) = executingIds s @ [st_requestId env]"
        show ?thesis unfolding a by auto
      next
        assume a: "executingIds (snd (startScan ahead env req prio s)) = executingIds s"
        show ?thesis unfolding a by auto
      qed
      then have "r = st_requestId env \<or> r \<in> set (executingIds s)"
        using assms(2) StartScan True by auto
      then show ?thesis using fresh by auto
    qed
  qed
next
  case (Settle env rid)
  show ?thesis
  proof (cases "find (\<lambda>ex. ex_requestId ex = rid) (executing s)")
    case None
    then show ?thesis using assms(2) Settle by simp
  next
    case (Some ex)
    then have ex: "ex \<in> set (executing s)" using find_executing by blast
    obtain s1 err where s1: "dispatcherSettled env ex s = callCompleteScan (ex_requestId ex) err s1"
      "queue s1 = queue s" "executing s1 = remove1 ex (executing s)"
      "statusOf s1 = (\<lambda>r. if r = ex_requestId ex \<and> statusOf s r \<noteq> None
                         then Some (settledStatus env) else statusOf s r)"
      using dispatcherSettled_shape [of env ex s] by blast
    have c1: "consistent s1" by (rule consistent_settling(1) [OF assms(1) ex s1(2,3,4)])
    have "r \<in> set (executingIds (callCompleteScan (ex_requestId ex) err s1))"
      using assms(2) Settle Some s1(1) by simp
    then have "r \<in> set (executingIds s1) \<or> statusOf s1 r = Some PENDING"
      by (rule callCompleteScan_executing [OF c1])
    moreover have "set (executingIds s1) \<subseteq> set (executingIds s)"
      using s1(3) set_remove1_subset [of ex "executing s"] by auto
    moreover have "statusOf s1 r = Some PENDING \<Longrightarrow> statusOf s r = Some PENDING"
      using s1(4) by (auto simp: settledStatus_def split: if_splits)
    ultimately show ?thesis by auto
  qed
next
  case (CancelScan u rid)
  show ?thesis
  proof (cases "rid \<in> set (pendingIds s)")
    case True
    then show ?thesis
      using assms(2) CancelScan cancelScan_pending [OF True, of u] by (simp del: set_map)
  next
    case False
    show ?thesis
    proof (cases "statusOf s rid = Some RUNNING")
      case notrun: False
      then show ?thesis using assms(2) CancelScan cancelScan_noop [OF False notrun, of u] by simp
    next
      case True
      obtain s1 where s1: "pendingIds s1 = pendingIds s" "executingIds s1 = executingIds s"
        "statusOf s1 = (\<lambda>r. if r = rid then Some CANCELLED else statusOf s r)"
        "snd (cancelScan u rid s) =
           (case u of None \<Rightarrow> callCompleteScan rid (Some ''Cancelled by user'') s1 | Some e \<Rightarrow> s1)"
        using cancelScan_running [OF False True, of u] by blast
      have d: "distinct (executingIds s)" "distinct (pendingIds s)"
        using assms(1) by (simp_all add: consistent_def)
      have c1: "consistent s1"
      proof (rule consistent_change [OF assms(1), where rid = rid])
        show "set (pendingIds s1) \<subseteq> set (pendingIds s)" using s1 by simp
        show "distinct (pendingIds s1)" using s1 d by simp
        show "set (executingIds s1) \<subseteq> set (executingIds s)" using s1 by simp
        show "distinct (executingIds s1)" using s1 d by simp
        show "\<forall>r. r \<noteq> rid \<longrightarrow> statusOf s1 r = statusOf s r" using s1 by simp
        show "statusOf s1 rid = Some PENDING" if "rid \<in> set (pendingIds s1)"
          using that s1(1) False by simp
        show "statusOf s1 rid = Some RUNNING \<or> statusOf s1 rid = Some CANCELLED"
          if "rid \<in> set (executingIds s1)"
          using s1 by simp
      qed
      show ?thesis
      proof (cases u)
        case None
        then have "r \<in> set (executingIds (callCompleteScan rid (Some ''Cancelled by user'') s1))"
          using assms(2) CancelScan s1(4) by simp
        then have "r \<in> set (executingIds s1) \<or> statusOf s1 r = Some PENDING"
          by (rule callCompleteScan_executing [OF c1])
        then show ?thesis using s1(2,3) by (auto simp del: set_map split: if_splits)
      next
        case (Some e)
        then show ?thesis using assms(2) CancelScan s1(2,4) by (simp del: set_map)
      qed
    qed
  qed
qed

text \<open>A job in a terminal status without an outstanding dispatcher operation is not
  touched by any operation.\<close>

lemma step_terminal:
  assumes "consistent s" and "statusOf s rid = Some st" and "terminal st"
    and "rid \<notin> set (executingIds s)"
  shows "statusOf (step ahead s op) rid = Some st \<and> rid \<notin> set (executingIds (step ahead s op))"
proof
  have np: "st \<noteq> PENDING" "st \<noteq> RUNNING" using assms(3) by (auto simp: terminal_def)
  show "statusOf (step ahead s op) rid = Some st"
  proof (cases "rid = target op")
    case False
    then show ?thesis using step_frame(2) [OF assms(1) False, of ahead] assms(2) np by auto
  next
    case True
    show ?thesis
    proof (cases op)
      case (StartScan env req prio)
      then obtain j where "jobs s (st_requestId env) = Some j"
        using True assms(2) by (auto simp: target_def statusOf_def)
      then show ?thesis using StartScan assms(2) by simp
    next
      case (Settle env r)
      then have "find (\<lambda>ex. ex_requestId ex = r) (executing s) = None"
        using True assms(4) by (simp add: target_def find_executing_None)
      then show ?thesis using Settle assms(2) by simp
    next
      case (CancelScan u r)
      then have r: "r = rid" using True by (simp add: target_def)
      have "rid \<notin> set (pendingIds s)"
        using consistent_pending [OF assms(1), of rid] assms(2) np by auto
      moreover have "statusOf s rid \<noteq> Some RUNNING" using assms(2) np by simp
      ultimately show ?thesis
        using CancelScan r assms(2) cancelScan_noop [of rid s u] by simp
    qed
  qed
  show "rid \<notin> set (executingIds (step ahead s op))"
    using step_executing [OF assms(1), of rid ahead op] assms(2,4) np by auto
qed

lemma run_append: "run ahead limit (ops @ rest) = foldl (step ahead) (run ahead limit ops) rest"
  by (simp add: run_def)

lemma consistent_foldl: "consistent s \<Longrightarrow> consistent (foldl (step ahead) s rest)"
  by (induction rest arbitrary: s) (simp_all add: consistent_step)

lemma foldl_terminal:
  assumes "consistent s" and "statusOf s rid = Some st" and "terminal st"
    and "rid \<notin> set (executingIds s)"
  shows "statusOf (foldl (step ahead) s rest) rid = Some st"
  using assms
proof (induction rest arbitrary: s)
  case Nil
  then show ?case by simp
next
  case (Cons op rest)
  have "statusOf (step ahead s op) rid = Some st \<and> rid \<notin> set (executingIds (step ahead s op))"
    by (rule step_terminal [OF Cons.prems])
  then show ?case
    using Cons.IH [of "step ahead s op"] Cons.prems(1,3) consistent_step [of s ahead op] by simp
qed

text \<open>
  Claim C2, as amended. \<open>updateJobStatus\<close> writes the status it is given, whatever the
  status was. What holds of the service is this: a job that is \<open>SUCCESS\<close> or \<open>FAILED\<close>,
  or \<open>CANCELLED\<close> with no dispatcher operation outstanding (it was cancelled while it
  waited), keeps its status under every sequence of operations.
\<close>

theorem terminal_status_kept:
  assumes "statusOf (run ahead limit ops) rid = Some st"
    and "st = SUCCESS \<or> st = FAILED \<or>
         (st = CANCELLED \<and> rid \<notin> set (executingIds (run ahead limit ops)))"
  shows "statusOf (run ahead limit (ops @ rest)) rid = Some st"
proof -
  have c: "consistent (run ahead limit ops)" by (rule consistent_run)
  have t: "terminal st" using assms(2) by (auto simp: terminal_def)
  have "rid \<notin> set (executingIds (run ahead limit ops))"
    using consistent_executing [OF c, of rid] assms by auto
  then show ?thesis
    unfolding run_append by (rule foldl_terminal [OF c assms(1) t])
qed

theorem terminal_status_kept_witness:
  "statusOf (run priorityDesc 1
      [StartScan (exampleStart ''A'') exampleScanRequest None, Settle settleDispatcherThrows ''A''])
      ''A'' = Some FAILED \<and>
   statusOf (run priorityDesc 1
      ([StartScan (exampleStart ''A'') exampleScanRequest None, Settle settleDispatcherThrows ''A'']
       @ [CancelScan None ''A'', Settle (settleOk cleanReports) ''A'',
          StartScan (exampleStart ''B'') exampleScanRequest (Some (-1))]))
      ''A'' = Some FAILED"
proof -
  have h: "statusOf (run priorityDesc 1
      [StartScan (exampleStart ''A'') exampleScanRequest None, Settle settleDispatcherThrows ''A''])
      ''A'' = Some FAILED"
    by code_simp
  show ?thesis
    using terminal_status_kept [OF h, of
        "[CancelScan None ''A'', Settle (settleOk cleanReports) ''A'',
          StartScan (exampleStart ''B'') exampleScanRequest (Some (-1))]"] h
    by simp
qed

text \<open>
  Claim C2, as stated, fails: a job cancelled while \<open>RUNNING\<close> is \<open>CANCELLED\<close>, and
  when its dispatcher operation completes afterwards \<open>finalizeScan\<close> sets it to
  \<open>RUNNING\<close> and then to \<open>SUCCESS\<close>.
\<close>

theorem terminal_status_counterexample:
  "statusOf (run priorityDesc 1
      [StartScan (exampleStart ''A'') exampleScanRequest None, CancelScan None ''A''])
      ''A'' = Some CANCELLED \<and>
   statusOf (run priorityDesc 1
      [StartScan (exampleStart ''A'') exampleScanRequest None, CancelScan None ''A'',
       Settle (settleOk cleanReports) ''A''])
      ''A'' = Some SUCCESS \<and>
   map ev_status (events (run priorityDesc 1
      [StartScan (exampleStart ''A'') exampleScanRequest None, CancelScan None ''A'',
       Settle (settleOk cleanReports) ''A'']))
     = [CANCELLED, RUNNING, SUCCESS]"
  by code_simp

text \<open>For a request that is never cancelled, the calls of \<open>completeScan\<close> follow its
  status: none until it has settled, one afterwards.\<close>

lemma startScan_target:
  "statusOf (snd (startScan ahead env req prio s)) (st_requestId env) = statusOf s (st_requestId env) \<or>
   statusOf (snd (startScan ahead env req prio s)) (st_requestId env) = Some PENDING \<or>
   statusOf (snd (startScan ahead env req prio s)) (st_requestId env) = Some RUNNING"
proof (cases "st_initializeScanRecord env")
  case (Inl e)
  then show ?thesis by (simp add: startScan_throws)
next
  case (Inr p)
  obtain sid iid where p: "p = (sid, iid)" by (cases p)
  show ?thesis using startScan_shape [OF Inr [unfolded p], of ahead req prio s] by auto
qed

lemma step_accounting:
  assumes c: "consistent s"
    and nc: "case op of CancelScan _ r \<Rightarrow> r \<noteq> rid | _ \<Rightarrow> True"
    and st: "statusOf s rid \<noteq> Some CANCELLED"
    and cnt: "releaseCount rid s = (if settled s rid then 1 else 0)"
  shows "statusOf (step ahead s op) rid \<noteq> Some CANCELLED \<and>
         releaseCount rid (step ahead s op) = (if settled (step ahead s op) rid then 1 else 0)"
proof (cases "rid = target op")
  case False
  have "releaseCount rid (step ahead s op) = releaseCount rid s"
    by (rule step_frame(1) [OF c False])
  moreover have "statusOf (step ahead s op) rid = statusOf s rid \<or>
      (statusOf s rid = Some PENDING \<and> statusOf (step ahead s op) rid = Some RUNNING)"
    by (rule step_frame(2) [OF c False])
  ultimately show ?thesis using st cnt by (auto simp: settled_def)
next
  case True
  show ?thesis
  proof (cases op)
    case (StartScan env req prio)
    then have rid: "st_requestId env = rid" using True by (simp add: target_def)
    show ?thesis
    proof (cases "jobs s rid")
      case (Some j)
      then show ?thesis using StartScan rid st cnt by simp
    next
      case None
      then have n: "statusOf s rid = None" by simp
      then have "releaseCount rid s = 0" using cnt by (simp add: settled_def)
      moreover have "releaseCount rid (snd (startScan ahead env req prio s)) = releaseCount rid s"
        using startScan_frame(2) [where env = env and s = s] by (simp add: releaseCount_def)
      moreover have "statusOf (snd (startScan ahead env req prio s)) rid = None \<or>
          statusOf (snd (startScan ahead env req prio s)) rid = Some PENDING \<or>
          statusOf (snd (startScan ahead env req prio s)) rid = Some RUNNING"
        using startScan_target [of ahead env req prio s] rid n by simp
      ultimately show ?thesis using StartScan rid None by (auto simp: settled_def)
    qed
  next
    case (Settle env r)
    then have r: "r = rid" using True by (simp add: target_def)
    show ?thesis
    proof (cases "find (\<lambda>ex. ex_requestId ex = rid) (executing s)")
      case None
      then show ?thesis using Settle r st cnt by simp
    next
      case (Some ex)
      then have ex: "ex \<in> set (executing s)" "ex_requestId ex = rid"
        using find_executing by blast+
      then have "rid \<in> set (executingIds s)" by auto
      then have "statusOf s rid = Some RUNNING"
        using consistent_executing [OF c, of rid] st by auto
      then have zero: "releaseCount rid s = 0" using cnt by (simp add: settled_def)
      have "releaseCount rid (dispatcherSettled env ex s) = releaseCount rid s + 1"
        using dispatcherSettled_frame(1) [OF c ex(1), of rid env] ex(2) by simp
      moreover have "statusOf (dispatcherSettled env ex s) rid = Some (settledStatus env)"
        using dispatcherSettled_frame(2) [OF c ex(1), of env] ex(2) by simp
      ultimately show ?thesis
        using Settle r Some zero by (auto simp: settled_def settledStatus_def)
    qed
  next
    case (CancelScan u r)
    then show ?thesis using True nc by (simp add: target_def)
  qed
qed

lemma run_accounting:
  "neverCancelled rid ops \<Longrightarrow>
     statusOf (run ahead limit ops) rid \<noteq> Some CANCELLED \<and>
     releaseCount rid (run ahead limit ops) = (if settled (run ahead limit ops) rid then 1 else 0)"
proof (induction ops rule: rev_induct)
  case Nil
  then show ?case
    by (simp add: run_def initialService_def statusOf_def releaseCount_def settled_def)
next
  case (snoc op ops)
  then have nc: "neverCancelled rid ops" "case op of CancelScan _ r \<Rightarrow> r \<noteq> rid | _ \<Rightarrow> True"
    by (simp_all add: neverCancelled_def)
  have step: "run ahead limit (ops @ [op]) = step ahead (run ahead limit ops) op"
    by (simp add: run_def)
  show ?case
    unfolding step
    using step_accounting [OF consistent_run nc(2), of ahead limit ops ahead] snoc.IH [OF nc(1)]
    by blast
qed

text \<open>
  Claim C1, as amended. For a job that is never cancelled, \<open>completeScan\<close> has been
  called exactly once when the job is \<open>SUCCESS\<close> or \<open>FAILED\<close> and not at all before.
  \<open>cancelScan\<close> of a \<open>RUNNING\<close> job calls it exactly once (when its record update
  succeeds) and \<open>cancelScan\<close> of a waiting job, which holds no slot, does not call it.
  Every settling of a dispatcher operation calls it exactly once, also when the job was
  cancelled before: the completion that arrives late is handled like any other.
\<close>

theorem release_accounting:
  "(neverCancelled rid ops \<longrightarrow>
      releaseCount rid (run ahead limit ops)
        = (if settled (run ahead limit ops) rid then 1 else 0)) \<and>
   (rid \<notin> set (pendingIds (run ahead limit ops)) \<and>
    statusOf (run ahead limit ops) rid = Some RUNNING \<longrightarrow>
      releaseCount rid (snd (cancelScan None rid (run ahead limit ops)))
        = releaseCount rid (run ahead limit ops) + 1) \<and>
   (rid \<in> set (pendingIds (run ahead limit ops)) \<longrightarrow>
      releaseCount rid (snd (cancelScan updateFails rid (run ahead limit ops)))
        = releaseCount rid (run ahead limit ops)) \<and>
   (ex \<in> set (executing (run ahead limit ops)) \<longrightarrow>
      releaseCount (ex_requestId ex) (dispatcherSettled env ex (run ahead limit ops))
        = releaseCount (ex_requestId ex) (run ahead limit ops) + 1)"
  using run_accounting [of rid ops ahead limit]
    cancelScan_frame(3,4) [OF consistent_run, of rid ahead limit ops]
    dispatcherSettled_frame(1) [OF consistent_run, of ex ahead limit ops "ex_requestId ex" env]
  by auto

theorem release_accounting_witness:
  "neverCancelled ''A'' [StartScan (exampleStart ''A'') exampleScanRequest None,
                        Settle settleDispatcherThrows ''A''] \<and>
   settled (run priorityDesc 1 [StartScan (exampleStart ''A'') exampleScanRequest None,
                                Settle settleDispatcherThrows ''A'']) ''A'' \<and>
   releaseCount ''A'' (run priorityDesc 1 [StartScan (exampleStart ''A'') exampleScanRequest None,
                                           Settle settleDispatcherThrows ''A'']) = 1 \<and>
   statusOf (run priorityDesc 1 [StartScan (exampleStart ''A'') exampleScanRequest None])
     ''A'' = Some RUNNING \<and>
   releaseCount ''A''
     (snd (cancelScan None ''A''
        (run priorityDesc 1 [StartScan (exampleStart ''A'') exampleScanRequest None]))) = 1 \<and>
   exampleExecution \<in> set (executing
     (run priorityDesc 1 [StartScan (exampleStart ''A'') exampleScanRequest None,
                          CancelScan None ''A'']))"
proof -
  let ?t = "[StartScan (exampleStart ''A'') exampleScanRequest None,
             Settle settleDispatcherThrows ''A'']"
  let ?u = "[StartScan (exampleStart ''A'') exampleScanRequest None]"
  have h1: "neverCancelled ''A'' ?t" by (simp add: neverCancelled_def)
  have h2: "settled (run priorityDesc 1 ?t) ''A''" by code_simp
  have h3: "''A'' \<notin> set (pendingIds (run priorityDesc 1 ?u))" by code_simp
  have h4: "statusOf (run priorityDesc 1 ?u) ''A'' = Some RUNNING" by code_simp
  have h5: "releaseCount ''A'' (run priorityDesc 1 ?u) = 0" by code_simp
  have h6: "exampleExecution \<in> set (executing
     (run priorityDesc 1 [StartScan (exampleStart ''A'') exampleScanRequest None,
                          CancelScan None ''A'']))" by code_simp
  show ?thesis
    using release_accounting [of "''A''" ?t priorityDesc 1]
      release_accounting [of "''A''" ?u priorityDesc 1] h1 h2 h3 h4 h5 h6
    by simp
qed

text \<open>
  Claim C1, as stated, fails. After a \<open>RUNNING\<close> job is cancelled, the completion of
  its dispatcher operation is not ignored: \<open>finalizeScan\<close> runs and calls
  \<open>completeScan\<close> a second time. And for a job cancelled while it waits, a terminal
  outcome too, \<open>completeScan\<close> is not called at all.
\<close>

theorem release_once_counterexample:
  "released (run priorityDesc 1
      [StartScan (exampleStart ''A'') exampleScanRequest None, CancelScan None ''A'',
       Settle (settleOk cleanReports) ''A''])
     = [(''A'', Some ''Cancelled by user''), (''A'', None)] \<and>
   releaseCount ''A'' (run priorityDesc 1
      [StartScan (exampleStart ''A'') exampleScanRequest None, CancelScan None ''A'',
       Settle (settleOk cleanReports) ''A'']) = 2 \<and>
   statusOf (run priorityDesc 1
      [StartScan (exampleStart ''A'') exampleScanRequest None,
       StartScan (exampleStart ''B'') exampleScanRequest None, CancelScan None ''B''])
      ''B'' = Some CANCELLED \<and>
   releaseCount ''B'' (run priorityDesc 1
      [StartScan (exampleStart ''A'') exampleScanRequest None,
       StartScan (exampleStart ''B'') exampleScanRequest None, CancelScan None ''B'']) = 0"
  by code_simp

text \<open>Only a failure sets the error of a job, and only of the job whose operation
  settles.\<close>

lemma errorOf_jobs_upd [simp]:
  "errorOf (s\<lparr>jobs := (jobs s)(k \<mapsto> j)\<rparr>) = (errorOf s)(k := Some (job_error j))"
  by (simp add: errorOf_def fun_eq_iff)

lemma finalizeScan_error: "errorOf (snd (finalizeScan env rid sid req s)) = errorOf s"
  by (auto simp: finalizeScan_def finalizeScan_success_def Let_def fun_eq_iff
                 updateJobStatus_error truthy_def
           split: sum.splits option.splits)

lemma executeScan_resume_error:
  "r \<noteq> ex_requestId ex \<Longrightarrow> errorOf (snd (executeScan_resume env ex s)) r = errorOf s r"
  by (auto simp: executeScan_resume_def executeScan_catch_shape(7) finalizeScan_error split_beta
           split: option.splits)

lemma dispatcherSettled_error:
  "r \<noteq> ex_requestId ex \<Longrightarrow> errorOf (dispatcherSettled env ex s) r = errorOf s r"
  using executeScan_resume_error [of r ex env "s\<lparr>executing := remove1 ex (executing s)\<rparr>"]
  by (auto simp: dispatcherSettled_def updateJobStatus_error split: prod.splits option.splits)

lemma cancelScan_error: "errorOf (snd (cancelScan u rid s)) = errorOf s"
  by (auto simp: cancelScan_def cancelQueuedScan_def Let_def fun_eq_iff updateJobStatus_error
                 truthy_def
           split: option.splits)

lemma startScan_error:
  "errorOf (snd (startScan ahead env req prio s)) r =
     (if r = st_requestId env \<and> \<not> isl (st_initializeScanRecord env) then Some None
      else errorOf s r)"
  by (auto simp: startScan_def addToQueue_def Let_def split: sum.splits option.splits prod.splits)


lemma unfailed_iff: "unfailed s \<longleftrightarrow> (\<forall>r \<in> active s. errorOf s r = Some None)"
  by (auto simp: unfailed_def active_def list_all_iff)

lemma callCompleteScan_active: "active (callCompleteScan rid err s) \<subseteq> active s"
  using callCompleteScan_effect [of rid err s]
proof (elim disjE exE conjE)
  fix nxt rest
  assume "pendingIds s = nxt # rest" "pendingIds (callCompleteScan rid err s) = rest"
    "executingIds (callCompleteScan rid err s) = executingIds s @ [nxt]"
  then show ?thesis unfolding active_def by (auto simp del: set_map)
next
  assume "pendingIds (callCompleteScan rid err s) = pendingIds s"
    "executingIds (callCompleteScan rid err s) = executingIds s"
  then show ?thesis unfolding active_def by (simp del: set_map)
qed

text \<open>A job that waits or executes has no error yet.\<close>

lemma unfailed_step:
  assumes c: "consistent s" and u: "unfailed s"
  shows "unfailed (step ahead s op)"
proof (cases op)
  case (StartScan env req prio)
  show ?thesis
  proof (cases "jobs s (st_requestId env)")
    case (Some j)
    then show ?thesis using u StartScan by simp
  next
    case None
    show ?thesis
    proof (cases "st_initializeScanRecord env")
      case (Inl e)
      then show ?thesis using u StartScan None by (simp add: startScan_throws)
    next
      case (Inr p)
      obtain sid iid where p: "p = (sid, iid)" by (cases p)
      let ?s' = "snd (startScan ahead env req prio s)"
      have "active ?s' \<subseteq> insert (st_requestId env) (active s)"
        using startScan_shape [OF Inr [unfolded p], of ahead req prio s]
        unfolding active_def by (elim conjE disjE) (auto simp del: set_map)
      moreover have "errorOf ?s' r = (if r = st_requestId env then Some None else errorOf s r)" for r
        using Inr by (simp add: startScan_error)
      ultimately have "unfailed ?s'" using u unfolding unfailed_iff by auto
      then show ?thesis using StartScan None by simp
    qed
  qed
next
  case (Settle env rid)
  show ?thesis
  proof (cases "find (\<lambda>ex. ex_requestId ex = rid) (executing s)")
    case None
    then show ?thesis using u Settle by simp
  next
    case (Some ex)
    then have ex: "ex \<in> set (executing s)" using find_executing by blast
    obtain s1 err where s1: "dispatcherSettled env ex s = callCompleteScan (ex_requestId ex) err s1"
      "queue s1 = queue s" "executing s1 = remove1 ex (executing s)"
      "statusOf s1 = (\<lambda>r. if r = ex_requestId ex \<and> statusOf s r \<noteq> None
                         then Some (settledStatus env) else statusOf s r)"
      using dispatcherSettled_shape [of env ex s] by blast
    have out: "ex_requestId ex \<notin> active s1"
      using consistent_settling(2,3) [OF c ex s1(2,3,4)] by (simp add: active_def)
    have "set (executingIds s1) \<subseteq> set (executingIds s)"
      using s1(3) set_remove1_subset [of ex "executing s"] by auto
    then have sub: "active s1 \<subseteq> active s" using s1(2) by (auto simp: active_def)
    have "errorOf (dispatcherSettled env ex s) r = Some None"
      if "r \<in> active (dispatcherSettled env ex s)" for r
    proof -
      have r1: "r \<in> active s1" using that callCompleteScan_active unfolding s1(1) by blast
      then have "r \<noteq> ex_requestId ex" using out by auto
      then have "errorOf (dispatcherSettled env ex s) r = errorOf s r"
        by (rule dispatcherSettled_error)
      then show ?thesis using u r1 sub unfolding unfailed_iff by auto
    qed
    then show ?thesis using Settle Some unfolding unfailed_iff by simp
  qed
next
  case (CancelScan upd rid)
  have "active (snd (cancelScan upd rid s)) \<subseteq> active s"
  proof (cases "rid \<in> set (pendingIds s)")
    case True
    then show ?thesis
      using cancelScan_pending [OF True, of upd] unfolding active_def by (auto simp del: set_map)
  next
    case False
    show ?thesis
    proof (cases "statusOf s rid = Some RUNNING")
      case notrun: False
      then show ?thesis using cancelScan_noop [OF False notrun, of upd] by simp
    next
      case True
      obtain s1 where s1: "pendingIds s1 = pendingIds s" "executingIds s1 = executingIds s"
        "snd (cancelScan upd rid s) =
           (case upd of None \<Rightarrow> callCompleteScan rid (Some ''Cancelled by user'') s1 | Some e \<Rightarrow> s1)"
        using cancelScan_running [OF False True, of upd] by blast
      have "active s1 = active s" using s1(1,2) unfolding active_def by (simp del: set_map)
      then show ?thesis
        using s1(3) callCompleteScan_active [of rid "Some ''Cancelled by user''" s1]
        by (cases upd) auto
    qed
  qed
  then show ?thesis using u CancelScan unfolding unfailed_iff by (auto simp: cancelScan_error)
qed

lemma unfailed_run: "unfailed (run ahead limit ops)"
proof (induction ops rule: rev_induct)
  case Nil
  then show ?case by (simp add: run_def unfailed_def initialService_def)
next
  case (snoc op ops)
  then show ?case
    using unfailed_step [OF consistent_run, of ahead limit ops ahead op] by (simp add: run_def)
qed

text \<open>A call of \<open>completeScan\<close> takes the request out of the running scans of the
  queue; the scan that it may start is another one, which was waiting.\<close>

lemma scanStartedListener_queue [simp]: "queue (scanStartedListener qs s) = queue s"
  by (simp add: scanStartedListener_def executeScan_dispatch_def simulateProgress_def Let_def
           split: option.splits)

lemma callCompleteScan_slot:
  assumes "rid \<notin> set (pendingIds s)"
  shows "rid \<notin> set (runningIds (callCompleteScan rid err s))"
  using assms
  by (auto simp: callCompleteScan_def completeScan_def Let_def split: list.splits)

lemma dispatcherSettled_slot:
  assumes "consistent s" and "ex \<in> set (executing s)"
  shows "ex_requestId ex \<notin> set (runningIds (dispatcherSettled env ex s))"
proof -
  obtain s1 err where s1: "dispatcherSettled env ex s = callCompleteScan (ex_requestId ex) err s1"
    "queue s1 = queue s" "executing s1 = remove1 ex (executing s)"
    "statusOf s1 = (\<lambda>r. if r = ex_requestId ex \<and> statusOf s r \<noteq> None
                       then Some (settledStatus env) else statusOf s r)"
    using dispatcherSettled_shape [of env ex s] by blast
  have "ex_requestId ex \<notin> set (pendingIds s1)"
    by (rule consistent_settling(3) [OF assms s1(2,3,4)])
  then show ?thesis unfolding s1(1) by (rule callCompleteScan_slot)
qed

text \<open>The notifications sent when a dispatcher operation settles.\<close>

lemma scanStartedListener_notifications [simp]:
  "notifications (scanStartedListener qs s) = notifications s"
  by (simp add: scanStartedListener_def executeScan_dispatch_def simulateProgress_def Let_def
           split: option.splits)

lemma callCompleteScan_notifications [simp]:
  "notifications (callCompleteScan rid err s) = notifications s"
  by (simp add: callCompleteScan_def completeScan_def Let_def split: list.splits)

lemma updateJobStatus_notifications [simp]:
  "notifications (updateJobStatus rid st p err stp s) = notifications s"
  by (simp add: updateJobStatus_def emitProgress_def Let_def split: option.splits)

lemma executeScan_catch_notifications [simp]:
  "notifications (snd (executeScan_catch u rid sid e s)) = notifications s"
  by (simp add: executeScan_catch_def cleanup_def Let_def split: option.splits)

lemma finalizeScan_notifications:
  "notifications (snd (finalizeScan env rid sid req s)) =
     (case fin_loadScanResults env of
        Inl e \<Rightarrow> notifications s
      | Inr reports \<Rightarrow>
          if fin_getScannerVersions env = None \<and> fin_uploadScanResults env = None \<and>
             (critical (calculateVulnerabilityCounts reports) > 0 \<or>
              high (calculateVulnerabilityCounts reports) > 0) \<and>
             fin_notifyScanComplete env = None
          then notifications s @
                 [(req_image req @ '':'' @ req_tag req, sid, calculateVulnerabilityCounts reports)]
          else notifications s)"
  by (auto simp: finalizeScan_def finalizeScan_success_def Let_def split: sum.splits option.splits)

lemma dispatcherSettled_notifications:
  "notifications (dispatcherSettled env ex s) =
     (case set_dispatcher env of
        Some e \<Rightarrow> notifications s
      | None \<Rightarrow> notifications
           (snd (finalizeScan (set_finalize env) (ex_requestId ex) (ex_scanId ex) (ex_request ex) s)))"
  by (auto simp: dispatcherSettled_def executeScan_resume_def finalizeScan_notifications split_beta
           split: option.splits sum.splits)

text \<open>The state in which the settling of an operation leaves its job, the queue and the
  persisted record, when the operation has failed and when it has not.\<close>

lemma settled_failure:
  assumes "thrown env = Some e" and "consistent s" and "unfailed s"
    and "ex \<in> set (executing s)"
  shows "statusOf (dispatcherSettled env ex s) (ex_requestId ex) = Some FAILED"
    and "ex_requestId ex \<notin> set (runningIds (dispatcherSettled env ex s))"
    and "errorText (dispatcherSettled env ex s) (ex_requestId ex)
           = errorMessage (boundaryError env e)"
    and "released (dispatcherSettled env ex s)
           = released s @ [(ex_requestId ex, Some (errorMessage (boundaryError env e)))]"
    and "recordUpdates (dispatcherSettled env ex s)
           = (case set_updateScanRecord env of
                None \<Rightarrow> recordUpdates s @
                  [(ex_scanId ex, \<lparr>upd_status = FAILED, upd_errorMessage = Some (errorMessage e)\<rparr>)]
              | Some e2 \<Rightarrow> recordUpdates s)"
proof -
  let ?rid = "ex_requestId ex"
  let ?msg = "errorMessage (boundaryError env e)"
  have inex: "?rid \<in> set (executingIds s)" using assms(4) by auto
  then have known: "statusOf s ?rid \<noteq> None"
    using consistent_executing [OF assms(2), of ?rid] by auto
  have noerr: "errorOf s ?rid = Some None"
    using assms(3) inex unfolding unfailed_iff active_def by blast
  obtain s1 where s1:
    "dispatcherSettled env ex s = callCompleteScan ?rid (Some ?msg) s1"
    "released s1 = released s"
    "recordUpdates s1 =
       (if set_updateScanRecord env = None
        then recordUpdates s @
               [(ex_scanId ex, \<lparr>upd_status = FAILED, upd_errorMessage = Some (errorMessage e)\<rparr>)]
        else recordUpdates s)"
    "errorOf s1 ?rid =
       (if statusOf s ?rid \<noteq> None \<and> ?msg \<noteq> [] then Some (Some ?msg) else errorOf s ?rid)"
    using dispatcherSettled_failure [OF assms(1), of ex s] by blast
  show "statusOf (dispatcherSettled env ex s) ?rid = Some FAILED"
    using dispatcherSettled_frame(2) [OF assms(2,4), of env] assms(1)
    by (simp add: settledStatus_def)
  show "?rid \<notin> set (runningIds (dispatcherSettled env ex s))"
    by (rule dispatcherSettled_slot [OF assms(2,4)])
  have "errorOf (dispatcherSettled env ex s) ?rid
      = (if ?msg \<noteq> [] then Some (Some ?msg) else Some None)"
    unfolding s1(1) using s1(4) known noerr by simp
  then show "errorText (dispatcherSettled env ex s) ?rid = ?msg"
    by (simp add: errorText_def)
  show "released (dispatcherSettled env ex s) = released s @ [(?rid, Some ?msg)]"
    unfolding s1(1) using s1(2) by simp
  show "recordUpdates (dispatcherSettled env ex s)
      = (case set_updateScanRecord env of
           None \<Rightarrow> recordUpdates s @
             [(ex_scanId ex, \<lparr>upd_status = FAILED, upd_errorMessage = Some (errorMessage e)\<rparr>)]
         | Some e2 \<Rightarrow> recordUpdates s)"
    unfolding s1(1) using s1(3) by (simp split: option.splits)
qed

lemma settled_success:
  assumes "thrown env = None" and "consistent s" and "unfailed s"
    and "ex \<in> set (executing s)"
  shows "statusOf (dispatcherSettled env ex s) (ex_requestId ex) = Some SUCCESS"
    and "ex_requestId ex \<notin> set (runningIds (dispatcherSettled env ex s))"
    and "errorText (dispatcherSettled env ex s) (ex_requestId ex) = []"
    and "released (dispatcherSettled env ex s) = released s @ [(ex_requestId ex, None)]"
    and "recordUpdates (dispatcherSettled env ex s) = recordUpdates s"
proof -
  let ?rid = "ex_requestId ex"
  have inex: "?rid \<in> set (executingIds s)" using assms(4) by auto
  have noerr: "errorOf s ?rid = Some None"
    using assms(3) inex unfolding unfailed_iff active_def by blast
  obtain s1 where s1:
    "dispatcherSettled env ex s = callCompleteScan ?rid None s1"
    "released s1 = released s" "recordUpdates s1 = recordUpdates s" "errorOf s1 = errorOf s"
    using dispatcherSettled_success [OF assms(1), of ex s] by blast
  show "statusOf (dispatcherSettled env ex s) ?rid = Some SUCCESS"
    using dispatcherSettled_frame(2) [OF assms(2,4), of env] assms(1)
    by (simp add: settledStatus_def)
  show "?rid \<notin> set (runningIds (dispatcherSettled env ex s))"
    by (rule dispatcherSettled_slot [OF assms(2,4)])
  show "errorText (dispatcherSettled env ex s) ?rid = []"
    unfolding s1(1) using s1(4) noerr by (simp add: errorText_def)
  show "released (dispatcherSettled env ex s) = released s @ [(?rid, None)]"
    unfolding s1(1) using s1(2) by simp
  show "recordUpdates (dispatcherSettled env ex s) = recordUpdates s"
    unfolding s1(1) using s1(3) by simp
qed

text \<open>
  Claim C3, as amended. When the dispatcher throws, or \<open>finalizeScan\<close> throws after
  it, no exception leaves the listener: the settling ends in a state of the service in
  which the job is \<open>FAILED\<close>, the request is no longer among the running scans of the
  queue, and \<open>completeScan\<close> has been called once more for it. When the record update
  of the \<open>catch\<close> block of \<open>executeScan\<close> succeeds, \<open>FAILED\<close> and the message of the
  exception are persisted, and the error of the job and of the call of \<open>completeScan\<close>
  read that message. When the record update throws, nothing is persisted, and the error
  of the job and of the call of \<open>completeScan\<close> read the message of the exception of the
  update. (An empty message leaves the error of the job unset, which reads the same.)
\<close>

theorem dispatch_failure_handled:
  assumes "thrown env = Some e"
    and "ex \<in> set (executing (run ahead limit ops))"
  shows "statusOf (dispatcherSettled env ex (run ahead limit ops)) (ex_requestId ex) = Some FAILED \<and>
         ex_requestId ex \<notin> set (runningIds (dispatcherSettled env ex (run ahead limit ops))) \<and>
         released (dispatcherSettled env ex (run ahead limit ops))
           = released (run ahead limit ops) @
               [(ex_requestId ex,
                 Some (errorMessage (case set_updateScanRecord env of None \<Rightarrow> e | Some e2 \<Rightarrow> e2)))] \<and>
         errorText (dispatcherSettled env ex (run ahead limit ops)) (ex_requestId ex)
           = errorMessage (case set_updateScanRecord env of None \<Rightarrow> e | Some e2 \<Rightarrow> e2) \<and>
         recordUpdates (dispatcherSettled env ex (run ahead limit ops))
           = (case set_updateScanRecord env of
                None \<Rightarrow> recordUpdates (run ahead limit ops) @
                  [(ex_scanId ex, \<lparr>upd_status = FAILED, upd_errorMessage = Some (errorMessage e)\<rparr>)]
              | Some e2 \<Rightarrow> recordUpdates (run ahead limit ops))"
  using settled_failure [OF assms(1) consistent_run unfailed_run assms(2)]
  by (simp add: boundaryError_def)

theorem dispatch_failure_handled_witness:
  "thrown settleDispatcherThrows = Some (Error ''pull failed'') \<and>
   exampleExecution \<in> set (executing
     (run priorityDesc 1 [StartScan (exampleStart ''A'') exampleScanRequest None])) \<and>
   runningIds (run priorityDesc 1 [StartScan (exampleStart ''A'') exampleScanRequest None])
     = [''A''] \<and>
   statusOf (dispatcherSettled settleDispatcherThrows exampleExecution
     (run priorityDesc 1 [StartScan (exampleStart ''A'') exampleScanRequest None])) ''A''
     = Some FAILED \<and>
   ''A'' \<notin> set (runningIds (dispatcherSettled settleDispatcherThrows exampleExecution
     (run priorityDesc 1 [StartScan (exampleStart ''A'') exampleScanRequest None]))) \<and>
   released (dispatcherSettled settleDispatcherThrows exampleExecution
     (run priorityDesc 1 [StartScan (exampleStart ''A'') exampleScanRequest None]))
     = [(''A'', Some ''pull failed'')] \<and>
   errorText (dispatcherSettled settleDispatcherThrows exampleExecution
     (run priorityDesc 1 [StartScan (exampleStart ''A'') exampleScanRequest None])) ''A''
     = ''pull failed'' \<and>
   recordUpdates (dispatcherSettled settleDispatcherThrows exampleExecution
     (run priorityDesc 1 [StartScan (exampleStart ''A'') exampleScanRequest None]))
     = [(''scan-A'', \<lparr>upd_status = FAILED, upd_errorMessage = Some ''pull failed''\<rparr>)]"
proof -
  have h1: "thrown settleDispatcherThrows = Some (Error ''pull failed'')"
    by (simp add: thrown_def settleDispatcherThrows_def settleOk_def)
  have h2: "exampleExecution \<in> set (executing
     (run priorityDesc 1 [StartScan (exampleStart ''A'') exampleScanRequest None]))"
    by code_simp
  have h3: "set_updateScanRecord settleDispatcherThrows = None"
    by (simp add: settleDispatcherThrows_def settleOk_def)
  have h4: "recordUpdates (run priorityDesc 1 [StartScan (exampleStart ''A'') exampleScanRequest None]) = []"
    by code_simp
  have h5: "released (run priorityDesc 1 [StartScan (exampleStart ''A'') exampleScanRequest None]) = []"
    by code_simp
  have h6: "runningIds (run priorityDesc 1 [StartScan (exampleStart ''A'') exampleScanRequest None])
     = [''A'']"
    by code_simp
  show ?thesis
    using dispatch_failure_handled [OF h1 h2] h1 h2 h3 h4 h5 h6
    by (simp add: exampleExecution_def)
qed

text \<open>
  Claim C3, as stated, fails where the record update of the \<open>catch\<close> block throws: the
  dispatcher fails with "pull failed" and \<open>updateScanRecord\<close> with "db down"; the job
  is \<open>FAILED\<close> and its slot released, but nothing is persisted, and the error recorded
  on the job is "db down", not the message of the dispatcher's exception.
\<close>

theorem dispatch_failure_counterexample:
  "statusOf (run priorityDesc 1
      [StartScan (exampleStart ''A'') exampleScanRequest None,
       Settle (settleDispatcherThrows\<lparr>set_updateScanRecord := Some (Error ''db down'')\<rparr>) ''A''])
      ''A'' = Some FAILED \<and>
   errorOf (run priorityDesc 1
      [StartScan (exampleStart ''A'') exampleScanRequest None,
       Settle (settleDispatcherThrows\<lparr>set_updateScanRecord := Some (Error ''db down'')\<rparr>) ''A''])
      ''A'' = Some (Some ''db down'') \<and>
   recordUpdates (run priorityDesc 1
      [StartScan (exampleStart ''A'') exampleScanRequest None,
       Settle (settleDispatcherThrows\<lparr>set_updateScanRecord := Some (Error ''db down'')\<rparr>) ''A''])
     = [] \<and>
   released (run priorityDesc 1
      [StartScan (exampleStart ''A'') exampleScanRequest None,
       Settle (settleDispatcherThrows\<lparr>set_updateScanRecord := Some (Error ''db down'')\<rparr>) ''A''])
     = [(''A'', Some ''db down'')]"
  by code_simp

text \<open>
  An exception with an empty message, such as \<open>new Error()\<close>: \<open>updateJobStatus\<close>
  stores a truthy error only, so the job is \<open>FAILED\<close> and released, the empty message
  is persisted, and the error of the job stays unset.
\<close>

lemma empty_message_leaves_error_unset:
  "statusOf (run priorityDesc 1
      [StartScan (exampleStart ''A'') exampleScanRequest None,
       Settle ((settleOk cleanReports)\<lparr>set_dispatcher := Some (Error [])\<rparr>) ''A''])
      ''A'' = Some FAILED \<and>
   errorOf (run priorityDesc 1
      [StartScan (exampleStart ''A'') exampleScanRequest None,
       Settle ((settleOk cleanReports)\<lparr>set_dispatcher := Some (Error [])\<rparr>) ''A''])
      ''A'' = Some None \<and>
   recordUpdates (run priorityDesc 1
      [StartScan (exampleStart ''A'') exampleScanRequest None,
       Settle ((settleOk cleanReports)\<lparr>set_dispatcher := Some (Error [])\<rparr>) ''A''])
     = [(''scan-A'', \<lparr>upd_status = FAILED, upd_errorMessage = Some []\<rparr>)] \<and>
   released (run priorityDesc 1
      [StartScan (exampleStart ''A'') exampleScanRequest None,
       Settle ((settleOk cleanReports)\<lparr>set_dispatcher := Some (Error [])\<rparr>) ''A''])
     = [(''A'', Some [])]"
  by code_simp

text \<open>
  Claim C8, as amended. \<open>finalizeScan\<close> awaits \<open>notifyScanComplete\<close> without a handler
  of its own. When the counts have a critical or high finding and the notification
  returns, the job reaches \<open>SUCCESS\<close>, the notification is recorded and nothing is
  persisted as failed. When the notification throws, the exception is a failure of
  \<open>finalizeScan\<close> like any other: the job becomes \<open>FAILED\<close> and no notification is
  recorded; when the record update of the \<open>catch\<close> block of \<open>executeScan\<close> succeeds,
  \<open>FAILED\<close> and the notification's message are persisted and the error of the job reads
  that message, and when the update throws, nothing is persisted and the error of the
  job reads the message of the update's exception. Either way the request is no longer
  among the running scans of the queue, and \<open>completeScan\<close> has been called once more
  for it.
\<close>

theorem notification_outcome:
  assumes "ex \<in> set (executing (run ahead limit ops))"
    and "set_dispatcher env = None"
    and "fin_loadScanResults (set_finalize env) = Inr reports"
    and "fin_getScannerVersions (set_finalize env) = None"
    and "fin_uploadScanResults (set_finalize env) = None"
    and "critical (calculateVulnerabilityCounts reports) > 0 \<or>
         high (calculateVulnerabilityCounts reports) > 0"
  shows "ex_requestId ex \<notin> set (runningIds (dispatcherSettled env ex (run ahead limit ops))) \<and>
         (case fin_notifyScanComplete (set_finalize env) of
            None \<Rightarrow>
              statusOf (dispatcherSettled env ex (run ahead limit ops)) (ex_requestId ex)
                = Some SUCCESS \<and>
              notifications (dispatcherSettled env ex (run ahead limit ops))
                = notifications (run ahead limit ops) @
                    [(req_image (ex_request ex) @ '':'' @ req_tag (ex_request ex), ex_scanId ex,
                      calculateVulnerabilityCounts reports)] \<and>
              released (dispatcherSettled env ex (run ahead limit ops))
                = released (run ahead limit ops) @ [(ex_requestId ex, None)] \<and>
              errorText (dispatcherSettled env ex (run ahead limit ops)) (ex_requestId ex) = [] \<and>
              recordUpdates (dispatcherSettled env ex (run ahead limit ops))
                = recordUpdates (run ahead limit ops)
          | Some e \<Rightarrow>
              statusOf (dispatcherSettled env ex (run ahead limit ops)) (ex_requestId ex)
                = Some FAILED \<and>
              notifications (dispatcherSettled env ex (run ahead limit ops))
                = notifications (run ahead limit ops) \<and>
              released (dispatcherSettled env ex (run ahead limit ops))
                = released (run ahead limit ops) @
                    [(ex_requestId ex,
                      Some (errorMessage
                        (case set_updateScanRecord env of None \<Rightarrow> e | Some e2 \<Rightarrow> e2)))] \<and>
              errorText (dispatcherSettled env ex (run ahead limit ops)) (ex_requestId ex)
                = errorMessage (case set_updateScanRecord env of None \<Rightarrow> e | Some e2 \<Rightarrow> e2) \<and>
              recordUpdates (dispatcherSettled env ex (run ahead limit ops))
                = (case set_updateScanRecord env of
                     None \<Rightarrow> recordUpdates (run ahead limit ops) @
                       [(ex_scanId ex,
                         \<lparr>upd_status = FAILED, upd_errorMessage = Some (errorMessage e)\<rparr>)]
                   | Some e2 \<Rightarrow> recordUpdates (run ahead limit ops)))"
proof -
  let ?s = "run ahead limit ops"
  have th: "thrown env = fin_notifyScanComplete (set_finalize env)"
    using assms(2-6) by (auto simp: thrown_def finalizeFailure_def)
  have slot: "ex_requestId ex \<notin> set (runningIds (dispatcherSettled env ex ?s))"
    by (rule dispatcherSettled_slot [OF consistent_run assms(1)])
  have nt: "notifications (dispatcherSettled env ex ?s) =
      (if fin_notifyScanComplete (set_finalize env) = None
       then notifications ?s @
              [(req_image (ex_request ex) @ '':'' @ req_tag (ex_request ex), ex_scanId ex,
                calculateVulnerabilityCounts reports)]
       else notifications ?s)"
    using assms(2-6) by (auto simp: dispatcherSettled_notifications finalizeScan_notifications)
  show ?thesis
  proof (cases "fin_notifyScanComplete (set_finalize env)")
    case None
    then have t: "thrown env = None" using th by simp
    show ?thesis
      using settled_success [OF t consistent_run unfailed_run assms(1)] slot nt None by simp
  next
    case (Some e)
    then have t: "thrown env = Some e" using th by simp
    show ?thesis
      using settled_failure [OF t consistent_run unfailed_run assms(1)] slot nt Some
      by (simp add: boundaryError_def)
  qed
qed

theorem notification_outcome_witness:
  "exampleExecution \<in> set (executing
     (run priorityDesc 1 [StartScan (exampleStart ''A'') exampleScanRequest None])) \<and>
   critical (calculateVulnerabilityCounts criticalReports) = 1 \<and>
   runningIds (run priorityDesc 1 [StartScan (exampleStart ''A'') exampleScanRequest None])
     = [''A''] \<and>
   statusOf (dispatcherSettled (settleOk criticalReports) exampleExecution
     (run priorityDesc 1 [StartScan (exampleStart ''A'') exampleScanRequest None])) ''A''
     = Some SUCCESS \<and>
   statusOf (dispatcherSettled settleNotifyThrows exampleExecution
     (run priorityDesc 1 [StartScan (exampleStart ''A'') exampleScanRequest None])) ''A''
     = Some FAILED \<and>
   errorText (dispatcherSettled settleNotifyThrows exampleExecution
     (run priorityDesc 1 [StartScan (exampleStart ''A'') exampleScanRequest None])) ''A''
     = ''smtp down'' \<and>
   recordUpdates (dispatcherSettled settleNotifyThrows exampleExecution
     (run priorityDesc 1 [StartScan (exampleStart ''A'') exampleScanRequest None]))
     = [(''scan-A'', \<lparr>upd_status = FAILED, upd_errorMessage = Some ''smtp down''\<rparr>)] \<and>
   ''A'' \<notin> set (runningIds (dispatcherSettled settleNotifyThrows exampleExecution
     (run priorityDesc 1 [StartScan (exampleStart ''A'') exampleScanRequest None])))"
proof -
  have h1: "exampleExecution \<in> set (executing
     (run priorityDesc 1 [StartScan (exampleStart ''A'') exampleScanRequest None]))"
    by code_simp
  have h2: "critical (calculateVulnerabilityCounts criticalReports) = 1" by code_simp
  then have h3: "critical (calculateVulnerabilityCounts criticalReports) > 0 \<or>
                 high (calculateVulnerabilityCounts criticalReports) > 0" by simp
  have h4: "recordUpdates (run priorityDesc 1 [StartScan (exampleStart ''A'') exampleScanRequest None]) = []"
    by code_simp
  have h5: "runningIds (run priorityDesc 1 [StartScan (exampleStart ''A'') exampleScanRequest None])
     = [''A'']"
    by code_simp
  have ok: "statusOf (dispatcherSettled (settleOk criticalReports) exampleExecution
     (run priorityDesc 1 [StartScan (exampleStart ''A'') exampleScanRequest None]))
       (ex_requestId exampleExecution) = Some SUCCESS"
    using notification_outcome [OF h1 _ _ _ _ h3, of "settleOk criticalReports"]
    by (simp add: settleOk_def)
  have bad: "statusOf (dispatcherSettled settleNotifyThrows exampleExecution
     (run priorityDesc 1 [StartScan (exampleStart ''A'') exampleScanRequest None]))
       (ex_requestId exampleExecution) = Some FAILED \<and>
     errorText (dispatcherSettled settleNotifyThrows exampleExecution
     (run priorityDesc 1 [StartScan (exampleStart ''A'') exampleScanRequest None]))
       (ex_requestId exampleExecution) = ''smtp down'' \<and>
     recordUpdates (dispatcherSettled settleNotifyThrows exampleExecution
     (run priorityDesc 1 [StartScan (exampleStart ''A'') exampleScanRequest None]))
       = [(ex_scanId exampleExecution,
           \<lparr>upd_status = FAILED, upd_errorMessage = Some ''smtp down''\<rparr>)] \<and>
     ex_requestId exampleExecution \<notin> set (runningIds (dispatcherSettled settleNotifyThrows
       exampleExecution
       (run priorityDesc 1 [StartScan (exampleStart ''A'') exampleScanRequest None])))"
    using notification_outcome [OF h1 _ _ _ _ h3, of settleNotifyThrows] h4
    by (simp add: settleNotifyThrows_def)
  show ?thesis using h1 h2 h5 ok bad by (simp add: exampleExecution_def)
qed

text \<open>
  Claim C8, as stated, fails: with a critical finding and a notification that throws,
  the scan ends \<open>FAILED\<close>, with the notification's message as its error.
\<close>

theorem notification_failure_counterexample:
  "statusOf (run priorityDesc 1
      [StartScan (exampleStart ''A'') exampleScanRequest None, Settle settleNotifyThrows ''A''])
      ''A'' = Some FAILED \<and>
   errorOf (run priorityDesc 1
      [StartScan (exampleStart ''A'') exampleScanRequest None, Settle settleNotifyThrows ''A''])
      ''A'' = Some (Some ''smtp down'') \<and>
   statusOf (run priorityDesc 1
      [StartScan (exampleStart ''A'') exampleScanRequest None, Settle (settleOk criticalReports) ''A''])
      ''A'' = Some SUCCESS"
  by code_simp

section \<open>Properties of the order of the queue\<close>

lemma priorityDesc_trans:
  "priorityDesc a b \<Longrightarrow> priorityDesc b c \<Longrightarrow> priorityDesc a c"
  by (auto simp: priorityDesc_def)

lemma priorityDesc_later:
  "\<not> priorityDesc y x \<Longrightarrow> q_enqueuedAt y < q_enqueuedAt x \<Longrightarrow> priorityDesc x y"
  by (auto simp: priorityDesc_def)

text \<open>A job that arrives last is inserted behind the waiting jobs of a greater or the same
  priority, and the waiting jobs stay in order.\<close>

lemma insertBy_sorted:
  "sorted_wrt priorityDesc xs \<Longrightarrow> \<forall>y \<in> set xs. q_enqueuedAt y < q_enqueuedAt x \<Longrightarrow>
     sorted_wrt priorityDesc (insertBy priorityDesc x xs)"
proof (induction xs)
  case Nil
  then show ?case by simp
next
  case (Cons y ys)
  show ?case
  proof (cases "priorityDesc y x")
    case True
    then show ?thesis using Cons by auto
  next
    case False
    then have xy: "priorityDesc x y" using Cons.prems(2) by (simp add: priorityDesc_later)
    have "priorityDesc x z" if "z \<in> set ys" for z
      using that Cons.prems(1) priorityDesc_trans [OF xy] by auto
    then show ?thesis using False xy Cons.prems(1) by auto
  qed
qed

lemma waitingInOrder_addToQueue:
  assumes "waitingInOrder q"
  shows "waitingInOrder (fst (addToQueue priorityDesc rid sid iid req prio q))"
proof (cases "length (running q) < maxConcurrent q")
  case True
  then show ?thesis
    using assms by (auto simp: addToQueue_def waitingInOrder_def Let_def list_all_iff)
next
  case False
  let ?x = "\<lparr>q_requestId = rid, q_scanId = sid, q_imageId = iid, q_request = req,
             q_priority = (case prio of None \<Rightarrow> 0 | Some p \<Rightarrow> p), q_enqueuedAt = arrivals q\<rparr>"
  have "sorted_wrt priorityDesc (insertBy priorityDesc ?x (pending q))"
    using assms by (intro insertBy_sorted) (auto simp: waitingInOrder_def list_all_iff)
  then show ?thesis
    using False assms
    by (auto simp: addToQueue_def waitingInOrder_def Let_def list_all_iff)
qed

lemma waitingInOrder_completeScan:
  assumes "waitingInOrder q"
  shows "waitingInOrder (fst (completeScan rid q))"
    and "snd (completeScan rid q) = Some nxt \<Longrightarrow>
           pending q = nxt # pending (fst (completeScan rid q)) \<and>
           list_all (priorityDesc nxt) (pending q)"
  using assms
  by (auto simp: completeScan_def waitingInOrder_def Let_def list_all_iff priorityDesc_def
           split: list.splits if_splits)

lemma waitingInOrder_cancelQueuedScan:
  assumes "waitingInOrder q"
  shows "waitingInOrder (snd (cancelQueuedScan rid q))"
  using assms
  by (auto simp: cancelQueuedScan_def waitingInOrder_def list_all_iff sorted_wrt_filter)


text \<open>
  Claim C4, as amended. With the order in which the greater priority value waits in
  front (0 = interactive in front of -1 = bulk) and, among equal priorities, the earlier
  arrival, jobs submitted at capacity with the priorities 0, -1, 0, -1 start in the order
  first, third, second, fourth. Under this order the waiting jobs are sorted at every
  moment: every queue operation keeps them sorted, and the job that \<open>completeScan\<close>
  starts is the first of them, in front of all the others.
\<close>

theorem queue_start_order:
  "startOrder 4 ''J0'' (atCapacity priorityDesc fourJobs) = [''J1'', ''J3'', ''J2'', ''J4''] \<and>
   (waitingInOrder q \<longrightarrow>
      waitingInOrder (fst (addToQueue priorityDesc rid sid iid req prio q)) \<and>
      waitingInOrder (fst (completeScan rid q)) \<and>
      waitingInOrder (snd (cancelQueuedScan rid q)) \<and>
      (snd (completeScan rid q) = Some nxt \<longrightarrow>
         pending q = nxt # pending (fst (completeScan rid q)) \<and>
         list_all (priorityDesc nxt) (pending q)))"
proof -
  have scenario: "startOrder 4 ''J0'' (atCapacity priorityDesc fourJobs)
      = [''J1'', ''J3'', ''J2'', ''J4'']"
    by code_simp
  show ?thesis
    using scenario waitingInOrder_addToQueue [where q = q]
      waitingInOrder_completeScan(1) [where q = q]
      waitingInOrder_completeScan(2) [where q = q and rid = rid and nxt = nxt]
      waitingInOrder_cancelQueuedScan [where q = q]
    by blast
qed

theorem queue_start_order_witness:
  "waitingInOrder (atCapacity priorityDesc fourJobs) \<and>
   map q_requestId (pending (atCapacity priorityDesc fourJobs)) = [''J1'', ''J3'', ''J2'', ''J4''] \<and>
   map_option q_requestId (snd (completeScan ''J0'' (atCapacity priorityDesc fourJobs))) = Some ''J1'' \<and>
   waitingInOrder (fst (completeScan ''J0'' (atCapacity priorityDesc fourJobs))) \<and>
   waitingInOrder (snd (cancelQueuedScan ''J3'' (atCapacity priorityDesc fourJobs))) \<and>
   waitingInOrder (fst (addToQueue priorityDesc ''J5'' ''scan-J5'' ''image-J5'' exampleScanRequest
                          None (atCapacity priorityDesc fourJobs)))"
proof -
  have h: "waitingInOrder (atCapacity priorityDesc fourJobs)" by code_simp
  have p: "map q_requestId (pending (atCapacity priorityDesc fourJobs))
             = [''J1'', ''J3'', ''J2'', ''J4'']" by code_simp
  have n: "map_option q_requestId (snd (completeScan ''J0'' (atCapacity priorityDesc fourJobs)))
             = Some ''J1''" by code_simp
  show ?thesis
    using queue_start_order [where q = "atCapacity priorityDesc fourJobs" and rid = "''J0''"]
      queue_start_order [where q = "atCapacity priorityDesc fourJobs" and rid = "''J3''"]
      queue_start_order [where q = "atCapacity priorityDesc fourJobs" and rid = "''J5''"
        and sid = "''scan-J5''" and iid = "''image-J5''" and req = exampleScanRequest
        and prio = None]
      h p n
    by simp
qed

text \<open>
  Claim C4, as stated, fails against itself. With the waiting jobs ordered by priority
  ascending, lower values first, as the claim words the order, the two jobs of priority
  -1 start first and the two jobs of priority 0 after them.
\<close>

theorem queue_start_order_counterexample:
  "startOrder 4 ''J0'' (atCapacity priorityAsc fourJobs) = [''J2'', ''J4'', ''J1'', ''J3''] \<and>
   startOrder 4 ''J0'' (atCapacity priorityAsc fourJobs) \<noteq> [''J1'', ''J3'', ''J2'', ''J4'']"
  by code_simp

end
